theory Spec2Isabelle
  imports Main "HOL-Library.Sublist" "HOL-Library.AList"
begin

section \<open>Strings, the Python runtime, JSON values\<close>

text \<open>
  A Python \<open>str\<close> is a sequence of Unicode code points; the en-dash of the separator
  pattern is the code point 8211, so a string is modelled as a list of code points and
  \<open>u\<close> embeds an ASCII literal of the source.
\<close>

type_synonym codepoint = nat
type_synonym pystr = "codepoint list"

definition u :: "string \<Rightarrow> pystr" where
  "u s = map of_char s"

text \<open>
  What the script takes from the Python runtime and cannot be read off its own text: the
  Unicode character tables behind \<open>str.strip\<close>, \<open>str.split\<close>, \<open>str.isalpha\<close>,
  \<open>str.lower\<close>, \<open>str.isupper\<close> and behind \<open>\s\<close>, \<open>\b\<close> and \<open>re.I\<close> of the
  \<open>re\<close> module, the random source of \<open>uuid4\<close> and the clock. They are fields of a
  record that every function takes; \<open>uuid4 E n\<close> is the text of the \<open>n\<close>-th identifier
  drawn and \<open>utcnow E n\<close> the \<open>n\<close>-th reading of the clock. \<open>ieq E c d\<close> says that the
  pattern literal \<open>c\<close> matches the character \<open>d\<close> under \<open>re.I\<close>.
\<close>

record runtime =
  isspace :: "codepoint \<Rightarrow> bool"
  isalpha :: "codepoint \<Rightarrow> bool"
  isword :: "codepoint \<Rightarrow> bool"
  ieq :: "codepoint \<Rightarrow> codepoint \<Rightarrow> bool"
  str_lower :: "pystr \<Rightarrow> pystr"
  str_isupper :: "pystr \<Rightarrow> bool"
  uuid4 :: "nat \<Rightarrow> pystr"
  utcnow :: "nat \<Rightarrow> pystr"

text \<open>
  The tables restricted to ASCII, for running the model on ASCII inputs (every function
  below consults the tables only at characters of its input): code points above 127 count
  as caseless and as neither space, letter nor word character.
\<close>

definition ascii_lower :: "codepoint \<Rightarrow> codepoint" where
  "ascii_lower c = (if 65 \<le> c \<and> c \<le> 90 then c + 32 else c)"

definition ascii_isupper :: "pystr \<Rightarrow> bool" where
  "ascii_isupper s =
     (\<not> list_ex (\<lambda>c. 97 \<le> c \<and> c \<le> 122) s \<and> list_ex (\<lambda>c. 65 \<le> c \<and> c \<le> 90) s)"

definition ascii_runtime :: runtime where
  "ascii_runtime =
     \<lparr> isspace = (\<lambda>c. (9 \<le> c \<and> c \<le> 13) \<or> (28 \<le> c \<and> c \<le> 32)),
       isalpha = (\<lambda>c. (65 \<le> c \<and> c \<le> 90) \<or> (97 \<le> c \<and> c \<le> 122)),
       isword = (\<lambda>c. (65 \<le> c \<and> c \<le> 90) \<or> (97 \<le> c \<and> c \<le> 122)
                      \<or> (48 \<le> c \<and> c \<le> 57) \<or> c = 95),
       ieq = (\<lambda>c d. ascii_lower d = c),
       str_lower = map ascii_lower,
       str_isupper = ascii_isupper,
       uuid4 = (\<lambda>n. replicate (Suc n) 120),
       utcnow = (\<lambda>n. u ''2025-01-01T00:00:00+00:00'') \<rparr>"

text \<open>\<open>str.strip()\<close> and \<open>str.split()\<close> without arguments.\<close>

definition str_strip :: "runtime \<Rightarrow> pystr \<Rightarrow> pystr" where
  "str_strip E s = rev (dropWhile (isspace E) (rev (dropWhile (isspace E) s)))"

fun split_acc :: "runtime \<Rightarrow> pystr \<Rightarrow> pystr \<Rightarrow> pystr list" where
  "split_acc E cur [] = (if cur = [] then [] else [cur])"
| "split_acc E cur (c # cs) =
     (if isspace E c then (if cur = [] then split_acc E [] cs else cur # split_acc E [] cs)
      else split_acc E (cur @ [c]) cs)"

definition str_split :: "runtime \<Rightarrow> pystr \<Rightarrow> pystr list" where
  "str_split E s = split_acc E [] s"

text \<open>
  The values the script builds and \<open>json.dump\<close> writes. A dict keeps its keys in
  insertion order, so it is an association list; \<open>AList.update\<close> is the assignment
  \<open>d[k] = v\<close> (in place for a key that is there, at the end for a new one).
\<close>

datatype json =
    JNull
  | JBool bool
  | JNum int
  | JStr pystr
  | JArr "json list"
  | JObj "(pystr \<times> json) list"

fun field :: "pystr \<Rightarrow> json \<Rightarrow> json option" where
  "field k (JObj kvs) = map_of kvs k"
| "field k other = None"

definition truthy :: "pystr option \<Rightarrow> bool" where
  "truthy x = (case x of None \<Rightarrow> False | Some s \<Rightarrow> s \<noteq> [])"

definition or_None :: "pystr option \<Rightarrow> json" where
  "or_None x = (case x of None \<Rightarrow> JNull | Some s \<Rightarrow> if s = [] then JNull else JStr s)"

fun json_truthy :: "json \<Rightarrow> bool" where
  "json_truthy JNull = False"
| "json_truthy (JBool b) = b"
| "json_truthy (JNum i) = (i \<noteq> 0)"
| "json_truthy (JStr s) = (s \<noteq> [])"
| "json_truthy (JArr xs) = (xs \<noteq> [])"
| "json_truthy (JObj kvs) = (kvs \<noteq> [])"

section \<open>Constants\<close>

text \<open>
  The four canonical keys are the values of \<open>SECTION_MAP\<close> and the keys of \<open>MAKE_OBJ\<close>.
  They are a datatype, with \<open>key_name\<close> for the string each stands for, so that
  \<open>MAKE_OBJ[key]\<close> is a total function of the key, as it is on the values of the table.
\<close>

datatype ckey = PositionHistory | EducationHistory | Competency | Achievements

fun key_name :: "ckey \<Rightarrow> pystr" where
  "key_name PositionHistory = u ''positionHistory''"
| "key_name EducationHistory = u ''educationHistory''"
| "key_name Competency = u ''competency''"
| "key_name Achievements = u ''achievements''"

definition SECTION_MAP :: "(pystr \<times> ckey) list" where
  "SECTION_MAP =
     [(u ''experience'', PositionHistory),
      (u ''professional experience'', PositionHistory),
      (u ''work experience'', PositionHistory),
      (u ''work history'', PositionHistory),
      (u ''employment history'', PositionHistory),
      (u ''employment'', PositionHistory),
      (u ''education'', EducationHistory),
      (u ''academic background'', EducationHistory),
      (u ''skills'', Competency),
      (u ''competencies'', Competency),
      (u ''awards'', Achievements),
      (u ''honors'', Achievements)]"

definition ROLE_KEYWORDS :: "pystr list" where
  "ROLE_KEYWORDS =
     map u [''manager'', ''director'', ''engineer'', ''developer'', ''analyst'', ''lead'',
            ''officer'', ''consultant'', ''specialist'']"

text \<open>
  \<open>ROLE_RE.search(s)\<close> for the pattern \<open>\b(manager|...|specialist)\b\<close> with \<open>re.I\<close>: some
  position \<open>i\<close> of \<open>s\<close> has a word boundary, one of the keywords at \<open>i\<close> and a word
  boundary behind that keyword. \<open>\b\<close> holds where exactly one of the two neighbouring
  characters is a word character, the outside of the string counting as none.
\<close>

definition word_at :: "runtime \<Rightarrow> pystr \<Rightarrow> nat \<Rightarrow> bool" where
  "word_at E s i = (i < length s \<and> isword E (s ! i))"

definition word_boundary :: "runtime \<Rightarrow> pystr \<Rightarrow> nat \<Rightarrow> bool" where
  "word_boundary E s i = ((0 < i \<and> word_at E s (i - 1)) \<noteq> word_at E s i)"

definition kw_at :: "runtime \<Rightarrow> pystr \<Rightarrow> nat \<Rightarrow> pystr \<Rightarrow> bool" where
  "kw_at E s i kw =
     (i + length kw \<le> length s \<and> list_all2 (ieq E) kw (take (length kw) (drop i s)))"

definition role_match_at :: "runtime \<Rightarrow> pystr \<Rightarrow> nat \<Rightarrow> bool" where
  "role_match_at E s i =
     (word_boundary E s i \<and>
      list_ex (\<lambda>kw. kw_at E s i kw \<and> word_boundary E s (i + length kw)) ROLE_KEYWORDS)"

definition ROLE_RE_search :: "runtime \<Rightarrow> pystr \<Rightarrow> bool" where
  "ROLE_RE_search E s = list_ex (role_match_at E s) [0..<Suc (length s)]"

section \<open>Helpers\<close>

definition canonical :: "runtime \<Rightarrow> pystr \<Rightarrow> ckey option" where
  "canonical E head = map_of SECTION_MAP (str_strip E (str_lower E head))"

definition new_uuid :: "runtime \<Rightarrow> nat \<Rightarrow> pystr \<times> nat" where
  "new_uuid E n = (u ''urn:uuid:'' @ uuid4 E n, Suc n)"

text \<open>
  \<open>re.split\<close>: the leftmost place where a whitespace character,
  an en-dash (8211) or a hyphen (45), and a whitespace character follow each other cuts
  the text in two; \<open>None\<close> stands for the one-element list when there is no such place.
\<close>

definition is_dash :: "codepoint \<Rightarrow> bool" where
  "is_dash c = (c = 8211 \<or> c = 45)"

fun re_split1 :: "runtime \<Rightarrow> pystr \<Rightarrow> (pystr \<times> pystr) option" where
  "re_split1 E (a # b # c # rest) =
     (if isspace E a \<and> is_dash b \<and> isspace E c then Some ([], rest)
      else map_option (\<lambda>(l, r). (a # l, r)) (re_split1 E (b # c # rest)))"
| "re_split1 E s = None"

definition to_position :: "runtime \<Rightarrow> pystr \<Rightarrow> nat \<Rightarrow> json \<times> nat" where
  "to_position E txt n =
     (let (jt, org) =
            (case re_split1 E txt of
               Some (left, right) \<Rightarrow>
                 if ROLE_RE_search E left then (left, Some right) else (right, Some left)
             | None \<Rightarrow> (txt, None));
          (uid, n') = new_uuid E n
      in (JObj [(u ''id'', JStr uid),
                (u ''type'', JStr (u ''Position'')),
                (u ''jobTitle'', or_None (Some jt)),
                (u ''organization'', or_None org),
                (u ''description'', or_None (Some txt))], n'))"

definition to_edu :: "runtime \<Rightarrow> pystr \<Rightarrow> nat \<Rightarrow> json \<times> nat" where
  "to_edu E txt n =
     (let (uid, n') = new_uuid E n
      in (JObj [(u ''id'', JStr uid), (u ''type'', JStr (u ''Education'')),
                (u ''description'', or_None (Some txt))], n'))"

definition to_comp :: "runtime \<Rightarrow> pystr \<Rightarrow> nat \<Rightarrow> json \<times> nat" where
  "to_comp E txt n =
     (let (uid, n') = new_uuid E n
      in (JObj [(u ''id'', JStr uid), (u ''type'', JStr (u ''Competency'')),
                (u ''name'', or_None (Some txt))], n'))"

definition to_ach :: "runtime \<Rightarrow> pystr \<Rightarrow> nat \<Rightarrow> json \<times> nat" where
  "to_ach E txt n =
     (let (uid, n') = new_uuid E n
      in (JObj [(u ''id'', JStr uid), (u ''type'', JStr (u ''Achievement'')),
                (u ''description'', or_None (Some txt))], n'))"

fun MAKE_OBJ :: "ckey \<Rightarrow> runtime \<Rightarrow> pystr \<Rightarrow> nat \<Rightarrow> json \<times> nat" where
  "MAKE_OBJ PositionHistory = to_position"
| "MAKE_OBJ EducationHistory = to_edu"
| "MAKE_OBJ Competency = to_comp"
| "MAKE_OBJ Achievements = to_ach"

section \<open>Document to sections\<close>

text \<open>
  A paragraph of the document as \<open>python-docx\<close> hands it over: its text and the name of
  its style, \<open>None\<close> when it has no style.
\<close>

record para =
  ptext :: pystr
  pstyle :: "pystr option"

definition looks_like_heading :: "runtime \<Rightarrow> pystr \<Rightarrow> bool" where
  "looks_like_heading E txt =
     (str_isupper E txt
      \<and> 2 \<le> length (str_split E txt) \<and> length (str_split E txt) \<le> 5
      \<and> 4 \<le> length (filter (isalpha E) txt))"

text \<open>
  \<open>out[current].append(txt)\<close>. The key \<open>current\<close> is always in \<open>out\<close> (it was assigned
  when \<open>current\<close> was set), so the \<open>KeyError\<close> of a missing key has no branch.
\<close>

definition append_to :: "pystr \<Rightarrow> pystr \<Rightarrow> (pystr \<times> pystr list) list \<Rightarrow> (pystr \<times> pystr list) list" where
  "append_to k txt out = map (\<lambda>(k', ps). if k' = k then (k', ps @ [txt]) else (k', ps)) out"

definition style_name :: "runtime \<Rightarrow> para \<Rightarrow> pystr" where
  "style_name E p = str_lower E (case pstyle p of None \<Rightarrow> [] | Some s \<Rightarrow> s)"

definition is_title_style :: "pystr \<Rightarrow> bool" where
  "is_title_style style = (style = u ''title'' \<or> prefix (u ''heading 1'') style)"

definition is_section_heading :: "runtime \<Rightarrow> pystr \<Rightarrow> pystr \<Rightarrow> bool" where
  "is_section_heading E style txt =
     ((prefix (u ''heading'') style \<and> \<not> prefix (u ''heading 1'') style)
      \<or> looks_like_heading E txt)"

text \<open>One turn of the loop of \<open>parse_docx\<close> on the state \<open>(name, current, out)\<close>.\<close>

type_synonym parse_state = "pystr option \<times> pystr option \<times> (pystr \<times> pystr list) list"

fun parse_step :: "runtime \<Rightarrow> parse_state \<Rightarrow> para \<Rightarrow> parse_state" where
  "parse_step E (name, current, out) p =
     (let txt = str_strip E (ptext p) in
      if txt = [] then (name, current, out)
      else
        let style = style_name E p in
        if is_title_style style then
          (if name = None then (Some txt, current, out) else (name, current, out))
        else if is_section_heading E style txt then
          (name, Some txt, AList.update txt [] out)
        else
          (case current of
             None \<Rightarrow> (name, current, out)
           | Some c \<Rightarrow> if c \<noteq> [] then (name, current, append_to c txt out)
                       else (name, current, out)))"

definition parse_docx :: "runtime \<Rightarrow> para list \<Rightarrow> pystr option \<times> (pystr \<times> pystr list) list" where
  "parse_docx E paragraphs =
     (let (name, current, out) = foldl (parse_step E) (None, None, []) paragraphs
      in (name, out))"

section \<open>Building the credential\<close>

record args =
  subject_id :: "pystr option"
  issuer_id :: "pystr option"
  issuer_name :: "pystr option"
  given_name :: "pystr option"
  family_name :: "pystr option"
  email :: "pystr option"
  phone :: "pystr option"
  country :: "pystr option"
  region :: "pystr option"

datatype py_error = IndexError

definition opt_json :: "pystr option \<Rightarrow> json" where
  "opt_json x = (case x of None \<Rightarrow> JNull | Some s \<Rightarrow> JStr s)"

text \<open>\<open>[MAKE_OBJ[key](txt) for txt in paras if txt]\<close>, drawing the identifiers in order.\<close>

fun make_objs :: "runtime \<Rightarrow> ckey \<Rightarrow> pystr list \<Rightarrow> nat \<Rightarrow> json list \<times> nat" where
  "make_objs E key [] n = ([], n)"
| "make_objs E key (txt # paras) n =
     (if txt \<noteq> [] then
        (let (obj, n1) = MAKE_OBJ key E txt n;
             (objs, n2) = make_objs E key paras n1
         in (obj # objs, n2))
      else make_objs E key paras n)"

text \<open>
  \<open>subject.setdefault(key, []).extend(objs)\<close>. Under a canonical key the subject only
  ever holds a list, so the third case (\<open>extend\<close> on something else) is never taken.
\<close>

definition setdefault_extend :: "pystr \<Rightarrow> json list \<Rightarrow> (pystr \<times> json) list \<Rightarrow> (pystr \<times> json) list" where
  "setdefault_extend key objs subject =
     (case map_of subject key of
        None \<Rightarrow> subject @ [(key, JArr objs)]
      | Some (JArr old) \<Rightarrow> AList.update key (JArr (old @ objs)) subject
      | Some other \<Rightarrow> subject)"

text \<open>The loop over \<open>sections.items()\<close>, in the order of the dict.\<close>

fun add_sections :: "runtime \<Rightarrow> (pystr \<times> pystr list) list \<Rightarrow> (pystr \<times> json) list \<Rightarrow> nat
                     \<Rightarrow> (pystr \<times> json) list \<times> nat" where
  "add_sections E [] subject n = (subject, n)"
| "add_sections E ((head, paras) # rest) subject n =
     (case canonical E head of
        None \<Rightarrow> add_sections E rest subject n
      | Some key \<Rightarrow>
          (let (objs, n1) = make_objs E key paras n in
           if objs \<noteq> [] then add_sections E rest (setdefault_extend (key_name key) objs subject) n1
           else add_sections E rest subject n1))"

definition CANONICAL_KEYS :: "ckey list" where
  "CANONICAL_KEYS = [PositionHistory, EducationHistory, Competency, Achievements]"

text \<open>\<open>args.given_name or (name.split()[0] if name else None)\<close>; the index may fail.\<close>

definition derive_given :: "runtime \<Rightarrow> pystr option \<Rightarrow> args \<Rightarrow> py_error + pystr option" where
  "derive_given E name a =
     (if truthy (given_name a) then Inr (given_name a)
      else (case name of
              None \<Rightarrow> Inr None
            | Some nm \<Rightarrow>
                if nm \<noteq> [] then
                  (case str_split E nm of [] \<Rightarrow> Inl IndexError | w # ws \<Rightarrow> Inr (Some w))
                else Inr None))"

text \<open>
  \<open>args.family_name or (name.split()[-1] if name and len(name.split()) > 1 else None)\<close>.
\<close>

definition derive_family :: "runtime \<Rightarrow> pystr option \<Rightarrow> args \<Rightarrow> pystr option" where
  "derive_family E name a =
     (if truthy (family_name a) then family_name a
      else (case name of
              None \<Rightarrow> None
            | Some nm \<Rightarrow>
                if nm \<noteq> [] \<and> 1 < length (str_split E nm) then Some (last (str_split E nm))
                else None))"

definition or_uuid :: "runtime \<Rightarrow> pystr option \<Rightarrow> nat \<Rightarrow> pystr \<times> nat" where
  "or_uuid E x n = (case x of
                      None \<Rightarrow> new_uuid E n
                    | Some s \<Rightarrow> if s \<noteq> [] then (s, n) else new_uuid E n)"

text \<open>\<open>x or d\<close> for an optional string \<open>x\<close> and a string \<open>d\<close>.\<close>

definition or_default :: "pystr option \<Rightarrow> pystr \<Rightarrow> pystr" where
  "or_default x d = (case x of None \<Rightarrow> d | Some s \<Rightarrow> if s \<noteq> [] then s else d)"

definition LER_RS_CONTEXT :: pystr where
  "LER_RS_CONTEXT =
     u ''http://schema.hropenstandards.org/4.5RC/recruiting/json/ler-rs/''
     @ u ''ProvisionalVerifiableCredentialResumeType.json''"

definition LER_RS_SCHEMA :: json where
  "LER_RS_SCHEMA = JObj [(u ''id'', JStr LER_RS_CONTEXT), (u ''type'', JStr (u ''JsonSchemaValidator2018''))]"

definition fallback_position :: "pystr \<Rightarrow> json" where
  "fallback_position uid =
     JObj [(u ''id'', JStr uid), (u ''type'', JStr (u ''Position'')), (u ''jobTitle'', JNull),
           (u ''organization'', JNull), (u ''description'', JNull)]"

text \<open>
  The default issuer name of the source, in which 233 is the letter e with an acute
  accent.
\<close>

definition default_issuer_name :: pystr where
  "default_issuer_name = u ''Self-issued r'' @ [233] @ u ''sum'' @ [233] @ u '' builder''"

text \<open>
  \<open>build_vc\<close> in three parts, in the order of its text: the personal data, the subject
  with the sections and the fallback record, and the envelope around them. The
  identifiers are drawn in the order in which the source calls \<open>new_uuid\<close>.
\<close>

definition personal_data :: "runtime \<Rightarrow> pystr option \<Rightarrow> args \<Rightarrow> py_error + (pystr \<times> json) list" where
  "personal_data E name a =
     (case derive_given E name a of
        Inl e \<Rightarrow> Inl e
      | Inr given \<Rightarrow>
          Inr [(u ''givenName'', opt_json given),
               (u ''familyName'', opt_json (derive_family E name a)),
               (u ''email'', or_None (email a)),
               (u ''phone'', or_None (phone a))])"

definition build_subject :: "runtime \<Rightarrow> pystr option \<Rightarrow> (pystr \<times> pystr list) list \<Rightarrow> args \<Rightarrow> nat
                             \<Rightarrow> py_error + (pystr \<times> json) list \<times> nat" where
  "build_subject E name sections a n0 =
     (case personal_data E name a of
        Inl e \<Rightarrow> Inl e
      | Inr personal \<Rightarrow>
         (let (sid, n1) = or_uuid E (subject_id a) n0;
              subject0 = [(u ''id'', JStr sid),
                          (u ''type'', JStr (u ''ResumeSubject'')),
                          (u ''personalData'', JObj personal)];
              (subject1, n2) = add_sections E sections subject0 n1
          in if \<not> list_ex (\<lambda>key. map_of subject1 (key_name key) \<noteq> None) CANONICAL_KEYS
             then (let (fid, n3) = new_uuid E n2
                   in Inr (AList.update (u ''positionHistory'') (JArr [fallback_position fid]) subject1, n3))
             else Inr (subject1, n2)))"

definition build_vc :: "runtime \<Rightarrow> pystr option \<Rightarrow> (pystr \<times> pystr list) list \<Rightarrow> args \<Rightarrow> nat
                        \<Rightarrow> py_error + json" where
  "build_vc E name sections a n0 =
     (case build_subject E name sections a n0 of
        Inl e \<Rightarrow> Inl e
      | Inr (subject, n3) \<Rightarrow>
         (let (iid, n4) = or_uuid E (issuer_id a) n3;
              issuer = JObj [(u ''type'', JStr (u ''Organization'')),
                             (u ''id'', JStr iid),
                             (u ''name'', JStr (or_default (issuer_name a) default_issuer_name))];
              (vid, n5) = new_uuid E n4;
              (mid, n6) = new_uuid E n5;
              vc = [(u ''@context'', JArr [JStr (u ''https://www.w3.org/2018/credentials/v1''),
                                           JStr LER_RS_CONTEXT]),
                    (u ''type'', JArr [JStr (u ''VerifiableCredential''),
                                       JStr (u ''ProvisionalVerifiableCredentialResume'')]),
                    (u ''id'', JStr vid),
                    (u ''credentialSchema'', LER_RS_SCHEMA),
                    (u ''issuer'', issuer),
                    (u ''issuanceDate'', JStr (utcnow E 0)),
                    (u ''credentialSubject'', JObj subject),
                    (u ''proof'', JObj [(u ''type'', JStr (u ''JsonWebSignature2020'')),
                                        (u ''created'', JStr (utcnow E 1)),
                                        (u ''proofPurpose'', JStr (u ''assertionMethod'')),
                                        (u ''verificationMethod'', JStr mid),
                                        (u ''jws'', JStr [])])]
          in Inr (JObj (case name of
                          None \<Rightarrow> vc
                        | Some nm \<Rightarrow>
                            if nm \<noteq> [] then AList.update (u ''name'') (JStr (nm @ [32, 8211, 32] @ u ''Resume'')) vc
                            else vc))))"

section \<open>Normalisation\<close>

fun replace_nulls :: "json \<Rightarrow> json" where
  "replace_nulls JNull = JStr (u ''Unknown'')"
| "replace_nulls (JArr xs) =
     (let ys = map replace_nulls xs in if ys = [] then JArr [JStr (u ''Unknown'')] else JArr ys)"
| "replace_nulls (JObj kvs) = JObj (map (\<lambda>(k, v). (k, replace_nulls v)) kvs)"
| "replace_nulls obj = obj"

text \<open>
  The two statements of \<open>main\<close> between \<open>build_vc\<close> and \<open>json.dump\<close>: the credential is
  normalised and \<open>vc["proof"]["jws"] = vc["proof"]["jws"] or "dummy"\<close> runs when both keys
  are there. The credential and its proof are dicts, the only case written out.
\<close>

definition normalize_vc :: "json \<Rightarrow> json" where
  "normalize_vc vc0 =
     (let vc = replace_nulls vc0 in
      case vc of
        JObj kvs \<Rightarrow>
          (case map_of kvs (u ''proof'') of
             Some (JObj pkvs) \<Rightarrow>
               (case map_of pkvs (u ''jws'') of
                  Some j \<Rightarrow>
                    JObj (AList.update (u ''proof'')
                            (JObj (AList.update (u ''jws'')
                                     (if json_truthy j then j else JStr (u ''dummy'')) pkvs)) kvs)
                | None \<Rightarrow> vc)
           | other \<Rightarrow> vc)
      | other \<Rightarrow> vc)"

section \<open>Predicates of the specification\<close>


text \<open>
  How the structure classifier sees a paragraph: as a title, as a section heading, with
  the text under which its group is filed, or as neither; and the body texts that a
  stretch of paragraphs adds to the open group before the next heading closes it.
\<close>

definition heading_text :: "runtime \<Rightarrow> para \<Rightarrow> pystr" where
  "heading_text E p = str_strip E (ptext p)"

definition is_title_para :: "runtime \<Rightarrow> para \<Rightarrow> bool" where
  "is_title_para E p = (str_strip E (ptext p) \<noteq> [] \<and> is_title_style (style_name E p))"

definition is_heading_para :: "runtime \<Rightarrow> para \<Rightarrow> bool" where
  "is_heading_para E p =
     (str_strip E (ptext p) \<noteq> [] \<and> \<not> is_title_style (style_name E p)
      \<and> is_section_heading E (style_name E p) (str_strip E (ptext p)))"

fun body_run :: "runtime \<Rightarrow> para list \<Rightarrow> pystr list" where
  "body_run E [] = []"
| "body_run E (p # ps) =
     (if str_strip E (ptext p) = [] \<or> is_title_para E p then body_run E ps
      else if is_heading_para E p then []
      else str_strip E (ptext p) # body_run E ps)"

text \<open>
  The non-empty paragraphs that the specification routes to a canonical key: those of the
  groups whose heading the table maps to the key, group after group. A collection is
  populated when something is routed to it.
\<close>

definition routed :: "runtime \<Rightarrow> ckey \<Rightarrow> (pystr \<times> pystr list) list \<Rightarrow> pystr list" where
  "routed E k sections =
     concat (map (\<lambda>(head, paras). filter (\<lambda>txt. txt \<noteq> []) paras)
                 (filter (\<lambda>(head, paras). canonical E head = Some k) sections))"

definition populated :: "runtime \<Rightarrow> (pystr \<times> pystr list) list \<Rightarrow> bool" where
  "populated E sections = list_ex (\<lambda>k. routed E k sections \<noteq> []) CANONICAL_KEYS"

text \<open>
  Reading a credential: its subject, the records of one canonical collection of the
  subject, the entries of the subject under canonical keys, and the field of a record
  that carries the paragraph it was built from.
\<close>

definition subject_of :: "json \<Rightarrow> (pystr \<times> json) list" where
  "subject_of vc = (case field (u ''credentialSubject'') vc of Some (JObj kvs) \<Rightarrow> kvs | other \<Rightarrow> [])"

definition records :: "(pystr \<times> json) list \<Rightarrow> ckey \<Rightarrow> json list" where
  "records subject k = (case map_of subject (key_name k) of Some (JArr xs) \<Rightarrow> xs | other \<Rightarrow> [])"

definition collections :: "(pystr \<times> json) list \<Rightarrow> (pystr \<times> json) list" where
  "collections subject = filter (\<lambda>kv. fst kv \<in> set (map key_name CANONICAL_KEYS)) subject"

fun payload_field :: "ckey \<Rightarrow> pystr" where
  "payload_field Competency = u ''name''"
| "payload_field k = u ''description''"

definition personal_field :: "pystr \<Rightarrow> json \<Rightarrow> json option" where
  "personal_field k vc =
     (case map_of (subject_of vc) (u ''personalData'') of Some p \<Rightarrow> field k p | None \<Rightarrow> None)"

definition issuer_field :: "pystr \<Rightarrow> json \<Rightarrow> json option" where
  "issuer_field k vc = (case field (u ''issuer'') vc of Some i \<Rightarrow> field k i | None \<Rightarrow> None)"

definition proof_field :: "pystr \<Rightarrow> json \<Rightarrow> json option" where
  "proof_field k vc = (case field (u ''proof'') vc of Some p \<Rightarrow> field k p | None \<Rightarrow> None)"

text \<open>
  The one case in which \<open>build_vc\<close> raises: no given name is supplied and the title is a
  non-empty string without a word, so that \<open>name.split()[0]\<close> fails.
\<close>

definition blank_title :: "runtime \<Rightarrow> pystr option \<Rightarrow> args \<Rightarrow> bool" where
  "blank_title E name a =
     (\<not> truthy (given_name a)
      \<and> (case name of None \<Rightarrow> False | Some nm \<Rightarrow> nm \<noteq> [] \<and> str_split E nm = []))"

text \<open>
  Invariants and predicates of the proofs: under a canonical key a subject holds a list
  or nothing; a title holds a word; a value holds neither a null nor an empty array.
\<close>

definition lists_under_keys :: "(pystr \<times> json) list \<Rightarrow> bool" where
  "lists_under_keys subject =
     (\<forall>k. map_of subject (key_name k) = None \<or> (\<exists>xs. map_of subject (key_name k) = Some (JArr xs)))"

definition title_ok :: "runtime \<Rightarrow> pystr option \<Rightarrow> bool" where
  "title_ok E name = (case name of None \<Rightarrow> True | Some nm \<Rightarrow> str_split E nm \<noteq> [])"

fun clean :: "json \<Rightarrow> bool" where
  "clean JNull = False"
| "clean (JArr xs) = (xs \<noteq> [] \<and> list_all clean xs)"
| "clean (JObj kvs) = list_all (\<lambda>kv. clean (snd kv)) kvs"
| "clean other = True"

section \<open>Example inputs\<close>

text \<open>
  A command line without overrides, one with all seven and one with all seven given as
  the empty string; a document in which the heading \<open>WORK HISTORY\<close>
  occurs twice, cut in front of and behind the second occurrence; a document without any
  heading; and the groups of a document with three headings for the position history,
  one heading outside the table and one for the skills.
\<close>

definition no_overrides :: args where
  "no_overrides =
     \<lparr> subject_id = None, issuer_id = None, issuer_name = None, given_name = None,
       family_name = None, email = None, phone = None, country = None, region = None \<rparr>"

definition all_overrides :: args where
  "all_overrides =
     \<lparr> subject_id = Some (u ''did:example:jane''), issuer_id = Some (u ''did:example:acme''),
       issuer_name = Some (u ''Acme Corp''), given_name = Some (u ''J.''),
       family_name = Some (u ''Doe''), email = Some (u ''jane@example.org''),
       phone = Some (u ''555-0100''), country = None, region = None \<rparr>"

definition empty_overrides :: args where
  "empty_overrides =
     \<lparr> subject_id = Some [], issuer_id = Some [], issuer_name = Some [], given_name = Some [],
       family_name = Some [], email = Some [], phone = Some [], country = None, region = None \<rparr>"

definition doc_before :: "para list" where
  "doc_before =
     [\<lparr> ptext = u ''Jane Q Public'', pstyle = Some (u ''Title'') \<rparr>,
      \<lparr> ptext = u ''WORK HISTORY'', pstyle = None \<rparr>,
      \<lparr> ptext = u ''Clerk - Old Bank'', pstyle = Some (u ''Normal'') \<rparr>]"

definition doc_heading :: para where
  "doc_heading = \<lparr> ptext = u ''WORK HISTORY'', pstyle = Some (u ''Heading 2'') \<rparr>"

definition doc_after :: "para list" where
  "doc_after =
     [\<lparr> ptext = u ''Software Engineer - Acme Corp'', pstyle = Some (u ''Normal'') \<rparr>,
      \<lparr> ptext = u ''   '', pstyle = None \<rparr>,
      \<lparr> ptext = u ''Skills'', pstyle = Some (u ''Heading 2'') \<rparr>,
      \<lparr> ptext = u ''Python'', pstyle = None \<rparr>,
      \<lparr> ptext = u '' Go '', pstyle = None \<rparr>]"

definition doc_plain :: "para list" where
  "doc_plain =
     [\<lparr> ptext = u ''Jane Q Public'', pstyle = Some (u ''Title'') \<rparr>,
      \<lparr> ptext = u ''Software Engineer - Acme Corp'', pstyle = Some (u ''Normal'') \<rparr>,
      \<lparr> ptext = u ''Python'', pstyle = None \<rparr>]"

definition alias_sections :: "(pystr \<times> pystr list) list" where
  "alias_sections =
     [(u ''Work History'', [u ''Clerk - Old Bank'', [], u ''Teller'']),
      (u ''Hobbies'', [u ''Chess'']),
      (u ''Employment History'', [u ''Engineer - Acme Corp'']),
      (u ''SKILLS'', [u ''Python'', u ''Go'']),
      (u ''EXPERIENCE'', [u ''Volunteer''])]"

section \<open>Basic facts\<close>

lemma u_eq_iff [simp]: "u a = u b \<longleftrightarrow> a = b"
proof -
  have "inj (of_char :: char \<Rightarrow> nat)" by (simp add: inj_def)
  then show ?thesis by (simp add: u_def inj_map_eq_map)
qed

lemma u_Nil_iff [simp]: "u s = [] \<longleftrightarrow> s = []" "[] = u s \<longleftrightarrow> s = []"
  by (auto simp add: u_def)

lemma keyword_nonempty: "kw \<in> set ROLE_KEYWORDS \<Longrightarrow> kw \<noteq> []"
  by (auto simp add: ROLE_KEYWORDS_def)

lemma search_nonempty: "ROLE_RE_search E s \<Longrightarrow> s \<noteq> []"
  by (auto simp add: ROLE_RE_search_def role_match_at_def kw_at_def list_ex_iff dest: keyword_nonempty)







section \<open>The structure classifier, step by step\<close>

lemma map_of_append_to:
  "map_of (append_to c txt out) k =
     (if k = c then map_option (\<lambda>ps. ps @ [txt]) (map_of out c) else map_of out k)"
  by (induction out) (auto simp add: append_to_def)

lemma parse_step_blank:
  "str_strip E (ptext p) = [] \<Longrightarrow> parse_step E (nm, cur, out) p = (nm, cur, out)"
  by simp

lemma parse_step_title:
  "is_title_para E p \<Longrightarrow> \<exists>nm'. parse_step E (nm, cur, out) p = (nm', cur, out)"
  by (simp add: is_title_para_def Let_def)

lemma parse_step_heading:
  "is_heading_para E p \<Longrightarrow>
     parse_step E (nm, cur, out) p = (nm, Some (heading_text E p), AList.update (heading_text E p) [] out)"
  by (simp add: is_heading_para_def heading_text_def Let_def)

lemma parse_step_body:
  "str_strip E (ptext p) \<noteq> [] \<Longrightarrow> \<not> is_title_para E p \<Longrightarrow> \<not> is_heading_para E p \<Longrightarrow>
     parse_step E (nm, cur, out) p =
       (nm, cur, case cur of None \<Rightarrow> out
                 | Some c \<Rightarrow> if c \<noteq> [] then append_to c (str_strip E (ptext p)) out else out)"
  by (simp add: is_title_para_def is_heading_para_def Let_def split: option.split)

declare parse_step.simps [simp del]

text \<open>The open group is always a key of \<open>out\<close>, so that \<open>out[current]\<close> never fails.\<close>

lemma append_to_keys: "fst ` set (append_to c t out) = fst ` set out"
  by (induction out) (auto simp add: append_to_def)

lemma parse_step_current_in_out:
  assumes "\<forall>c. cur = Some c \<longrightarrow> c \<in> fst ` set out"
    and "parse_step E (nm, cur, out) p = (nm', cur', out')"
  shows "\<forall>c. cur' = Some c \<longrightarrow> c \<in> fst ` set out'"
proof -
  consider (blank) "str_strip E (ptext p) = []"
    | (title) "is_title_para E p"
    | (heading) "is_heading_para E p"
    | (body) "str_strip E (ptext p) \<noteq> []" "\<not> is_title_para E p" "\<not> is_heading_para E p"
    by blast
  then show ?thesis
  proof cases
    case blank
    from parse_step_blank[OF blank, of nm cur out] assms show ?thesis by simp
  next
    case title
    from parse_step_title[OF title, of nm cur out] assms show ?thesis by auto
  next
    case heading
    from parse_step_heading[OF heading, of nm cur out] assms(2)
    have "cur' = Some (heading_text E p)" "out' = AList.update (heading_text E p) [] out"
      by simp_all
    then show ?thesis by (simp add: dom_update)
  next
    case body
    from parse_step_body[OF body, of nm cur out] assms(2)
    have c: "cur' = cur"
      and o: "out' = (case cur of None \<Rightarrow> out
                 | Some c \<Rightarrow> if c \<noteq> [] then append_to c (str_strip E (ptext p)) out else out)"
      by simp_all
    have "fst ` set out' = fst ` set out"
      unfolding o by (simp add: append_to_keys split: option.split)
    with c assms(1) show ?thesis by simp
  qed
qed

lemma parse_loop_current_in_out:
  assumes "\<forall>c. cur = Some c \<longrightarrow> c \<in> fst ` set out"
    and "foldl (parse_step E) (nm, cur, out) ps = (nm', cur', out')"
  shows "\<forall>c. cur' = Some c \<longrightarrow> c \<in> fst ` set out'"
  using assms
proof (induction ps arbitrary: nm cur out)
  case Nil
  then show ?case by simp
next
  case (Cons p ps)
  obtain nm1 cur1 out1 where st: "parse_step E (nm, cur, out) p = (nm1, cur1, out1)"
    by (cases "parse_step E (nm, cur, out) p")
  from parse_step_current_in_out[OF Cons.prems(1) st]
  have "\<forall>c. cur1 = Some c \<longrightarrow> c \<in> fst ` set out1" .
  moreover have "foldl (parse_step E) (nm1, cur1, out1) ps = (nm', cur', out')"
    using Cons.prems(2) by (simp add: st)
  ultimately show ?case by (rule Cons.IH)
qed

lemma other_group_kept:
  assumes "cur \<noteq> Some t"
    and "\<forall>p\<in>set ps. is_heading_para E p \<longrightarrow> heading_text E p \<noteq> t"
  shows "map_of (snd (snd (foldl (parse_step E) (nm, cur, out) ps))) t = map_of out t"
  using assms
proof (induction ps arbitrary: nm cur out)
  case Nil
  show ?case by simp
next
  case (Cons p ps)
  have rest: "\<forall>q\<in>set ps. is_heading_para E q \<longrightarrow> heading_text E q \<noteq> t"
    using Cons.prems(2) by simp
  consider (blank) "str_strip E (ptext p) = []"
    | (title) "is_title_para E p"
    | (heading) "is_heading_para E p"
    | (body) "str_strip E (ptext p) \<noteq> []" "\<not> is_title_para E p" "\<not> is_heading_para E p"
    by blast
  then show ?case
  proof cases
    case blank
    then show ?thesis using Cons.IH[OF Cons.prems(1) rest] by (simp add: parse_step_blank)
  next
    case title
    from parse_step_title[OF title, of nm cur out] obtain nm' where
      "parse_step E (nm, cur, out) p = (nm', cur, out)" by blast
    then show ?thesis using Cons.IH[OF Cons.prems(1) rest, of nm' out] by simp
  next
    case heading
    have ne: "heading_text E p \<noteq> t" using Cons.prems(2) heading by simp
    then have "Some (heading_text E p) \<noteq> Some t" by simp
    from Cons.IH[OF this rest, of nm "AList.update (heading_text E p) [] out"] ne
    show ?thesis by (simp add: parse_step_heading[OF heading] update_conv')
  next
    case body
    let ?out' = "case cur of None \<Rightarrow> out
                 | Some c \<Rightarrow> if c \<noteq> [] then append_to c (str_strip E (ptext p)) out else out"
    have "map_of ?out' t = map_of out t"
      using Cons.prems(1) by (auto simp add: map_of_append_to split: option.split)
    with Cons.IH[OF Cons.prems(1) rest, of nm ?out']
    show ?thesis by (simp add: parse_step_body[OF body])
  qed
qed

lemma open_group_collects:
  assumes "t \<noteq> []" and "map_of out t = Some acc"
    and "\<forall>p\<in>set ps. is_heading_para E p \<longrightarrow> heading_text E p \<noteq> t"
  shows "map_of (snd (snd (foldl (parse_step E) (nm, Some t, out) ps))) t = Some (acc @ body_run E ps)"
  using assms
proof (induction ps arbitrary: nm out acc)
  case Nil
  then show ?case by simp
next
  case (Cons p ps)
  have rest: "\<forall>q\<in>set ps. is_heading_para E q \<longrightarrow> heading_text E q \<noteq> t"
    using Cons.prems(3) by simp
  consider (blank) "str_strip E (ptext p) = []"
    | (title) "is_title_para E p"
    | (heading) "is_heading_para E p" "\<not> is_title_para E p" "str_strip E (ptext p) \<noteq> []"
    | (body) "str_strip E (ptext p) \<noteq> []" "\<not> is_title_para E p" "\<not> is_heading_para E p"
    by (auto simp add: is_heading_para_def is_title_para_def)
  then show ?case
  proof cases
    case blank
    then show ?thesis using Cons.IH[OF Cons.prems(1,2) rest] by (simp add: parse_step_blank)
  next
    case title
    from parse_step_title[OF title, of nm "Some t" out] obtain nm' where
      "parse_step E (nm, Some t, out) p = (nm', Some t, out)" by blast
    then show ?thesis using Cons.IH[OF Cons.prems(1,2) rest, of nm'] title by simp
  next
    case heading
    have ne: "heading_text E p \<noteq> t" using Cons.prems(3) heading(1) by simp
    then have "Some (heading_text E p) \<noteq> Some t" by simp
    from other_group_kept[OF this rest, of nm "AList.update (heading_text E p) [] out"] ne
    show ?thesis using heading Cons.prems(2) by (simp add: parse_step_heading[OF heading(1)] update_conv')
  next
    case body
    have "map_of (append_to t (str_strip E (ptext p)) out) t = Some (acc @ [str_strip E (ptext p)])"
      using Cons.prems(2) by (simp add: map_of_append_to)
    from Cons.IH[OF Cons.prems(1) this rest, of nm]
    show ?thesis using body Cons.prems(1) by (simp add: parse_step_body[OF body])
  qed
qed

lemma snd_parse_docx:
  "snd (parse_docx E ps) = snd (snd (foldl (parse_step E) (None, None, []) ps))"
  by (simp add: parse_docx_def split: prod.split)

lemma split_acc_nonempty: "cur \<noteq> [] \<Longrightarrow> split_acc E cur s \<noteq> []"
  by (induction s arbitrary: cur) auto

lemma str_strip_hd:
  assumes "str_strip E s \<noteq> []"
  shows "\<not> isspace E (hd (str_strip E s))"
proof -
  define d where "d = dropWhile (isspace E) s"
  define r where "r = dropWhile (isspace E) (rev d)"
  have e: "str_strip E s = rev r" by (simp add: str_strip_def r_def d_def)
  with assms have rne: "rev r \<noteq> []" by simp
  have dne: "d \<noteq> []"
  proof
    assume "d = []"
    then have "r = []" by (simp add: r_def)
    with rne show False by simp
  qed
  have "rev d = takeWhile (isspace E) (rev d) @ r" by (simp add: r_def)
  then have "d = rev r @ rev (takeWhile (isspace E) (rev d))"
    by (metis rev_append rev_rev_ident)
  then have "hd d = hd (rev r)" using rne by (metis hd_append2)
  moreover have "\<not> isspace E (hd d)" using dne unfolding d_def by (rule hd_dropWhile)
  ultimately show ?thesis by (simp add: e)
qed

lemma str_split_strip:
  assumes "str_strip E s \<noteq> []"
  shows "str_split E (str_strip E s) \<noteq> []"
proof -
  from assms obtain c cs where e: "str_strip E s = c # cs" by (cases "str_strip E s") auto
  with str_strip_hd[OF assms] have "\<not> isspace E c" by simp
  then show ?thesis using split_acc_nonempty[of "[c]" E cs] by (simp add: e str_split_def)
qed



lemma parse_step_title_ok:
  "title_ok E nm \<Longrightarrow> title_ok E (fst (parse_step E (nm, cur, out) p))"
  by (auto simp add: parse_step.simps Let_def title_ok_def str_split_strip split: option.split)

lemma parse_loop_title_ok:
  "title_ok E (fst st) \<Longrightarrow> title_ok E (fst (foldl (parse_step E) st ps))"
proof (induction ps arbitrary: st)
  case Nil
  then show ?case by simp
next
  case (Cons p ps)
  obtain nm cur out where st: "st = (nm, cur, out)" by (cases st)
  show ?case using Cons.IH[of "parse_step E st p"] Cons.prems parse_step_title_ok[of E nm cur out p]
    by (simp add: st)
qed

lemma parse_docx_not_blank: "\<not> blank_title E (fst (parse_docx E ps)) a"
proof -
  have "title_ok E (fst (foldl (parse_step E) (None, None, []) ps))"
    by (rule parse_loop_title_ok) (simp add: title_ok_def)
  moreover have "fst (parse_docx E ps) = fst (foldl (parse_step E) (None, None, []) ps)"
    by (simp add: parse_docx_def split: prod.split)
  ultimately show ?thesis by (auto simp add: blank_title_def title_ok_def split: option.split)
qed

lemma no_heading_no_group:
  "\<forall>p\<in>set ps. \<not> is_heading_para E p \<Longrightarrow>
     snd (foldl (parse_step E) (nm, None, []) ps) = (None, [])"
proof (induction ps arbitrary: nm)
  case Nil
  show ?case by simp
next
  case (Cons p ps)
  have rest: "\<forall>q\<in>set ps. \<not> is_heading_para E q" and np: "\<not> is_heading_para E p"
    using Cons.prems by simp_all
  consider (blank) "str_strip E (ptext p) = []"
    | (title) "is_title_para E p"
    | (body) "str_strip E (ptext p) \<noteq> []" "\<not> is_title_para E p" "\<not> is_heading_para E p"
    using np by blast
  then show ?case
  proof cases
    case blank
    then show ?thesis using Cons.IH[OF rest] by (simp add: parse_step_blank)
  next
    case title
    from parse_step_title[OF title, of nm None "[]"] obtain nm' where
      "parse_step E (nm, None, []) p = (nm', None, [])" by blast
    then show ?thesis using Cons.IH[OF rest, of nm'] by simp
  next
    case body
    then show ?thesis using Cons.IH[OF rest, of nm] by (simp add: parse_step_body[OF body])
  qed
qed

lemma no_heading_no_sections:
  "\<forall>p\<in>set ps. \<not> is_heading_para E p \<Longrightarrow> snd (parse_docx E ps) = []"
  using no_heading_no_group[of ps E None] by (simp add: snd_parse_docx)

section \<open>The section loop and the assembled credential\<close>

lemma key_name_inj [simp]: "key_name k = key_name k' \<longleftrightarrow> k = k'"
  by (cases k; cases k') simp_all

lemma key_name_not_base [simp]:
  "key_name k \<noteq> u ''id''" "key_name k \<noteq> u ''type''" "key_name k \<noteq> u ''personalData''"
  "u ''id'' \<noteq> key_name k" "u ''type'' \<noteq> key_name k" "u ''personalData'' \<noteq> key_name k"
  by ((cases k; simp)+)

lemma make_obj_payload:
  "txt \<noteq> [] \<Longrightarrow> field (payload_field k) (fst (MAKE_OBJ k E txt n)) = Some (JStr txt)"
  by (cases k)
     (simp_all add: to_position_def to_edu_def to_comp_def to_ach_def new_uuid_def or_None_def
        split: prod.split option.split)

lemma make_objs_payload:
  "map (field (payload_field k)) (fst (make_objs E k paras n))
     = map (\<lambda>t. Some (JStr t)) (filter (\<lambda>txt. txt \<noteq> []) paras)"
proof (induction paras arbitrary: n)
  case Nil
  show ?case by simp
next
  case (Cons tx paras)
  show ?case
  proof (cases "tx = []")
    case True
    then show ?thesis using Cons.IH[of n] by simp
  next
    case False
    obtain obj n1 where o: "MAKE_OBJ k E tx n = (obj, n1)" by (cases "MAKE_OBJ k E tx n")
    obtain objs n2 where r: "make_objs E k paras n1 = (objs, n2)" by (cases "make_objs E k paras n1")
    from make_obj_payload[OF False, of k E n] o
    have "field (payload_field k) obj = Some (JStr tx)" by simp
    moreover from Cons.IH[of n1] r
    have "map (field (payload_field k)) objs = map (\<lambda>t. Some (JStr t)) (filter (\<lambda>txt. txt \<noteq> []) paras)"
      by simp
    ultimately show ?thesis using False o r by simp
  qed
qed

lemma make_objs_Nil_iff:
  "fst (make_objs E k paras n) = [] \<longleftrightarrow> filter (\<lambda>txt. txt \<noteq> []) paras = []"
  using make_objs_payload[of k E paras n] by (metis map_is_Nil_conv)

lemma make_objs_none:
  "filter (\<lambda>txt. txt \<noteq> []) paras = [] \<Longrightarrow> make_objs E k paras n = ([], n)"
  by (induction paras arbitrary: n) (auto split: if_splits)

lemma routed_Nil [simp]: "routed E k [] = []"
  by (simp add: routed_def)

lemma routed_Cons:
  "routed E k ((head, paras) # rest) =
     (if canonical E head = Some k then filter (\<lambda>txt. txt \<noteq> []) paras else []) @ routed E k rest"
  by (simp add: routed_def)

lemma setdefault_extend_map_of:
  assumes "lists_under_keys subject"
  shows "map_of (setdefault_extend (key_name k) objs subject) key =
           (if key = key_name k then Some (JArr (records subject k @ objs)) else map_of subject key)"
proof (cases "map_of subject (key_name k)")
  case None
  then show ?thesis
    by (auto simp add: setdefault_extend_def records_def map_add_def split: option.split)
next
  case (Some v)
  with assms obtain xs where "map_of subject (key_name k) = Some (JArr xs)"
    unfolding lists_under_keys_def by (metis option.distinct(1))
  then show ?thesis
    by (simp add: setdefault_extend_def records_def update_conv')
qed

lemma setdefault_extend_lists:
  assumes "lists_under_keys subject"
  shows "lists_under_keys (setdefault_extend (key_name k) objs subject)"
  using assms unfolding lists_under_keys_def
  by (simp add: setdefault_extend_map_of[OF assms])

lemma add_sections_none:
  "\<forall>k. routed E k sections = [] \<Longrightarrow> add_sections E sections subject n = (subject, n)"
proof (induction sections arbitrary: subject n)
  case Nil
  show ?case by simp
next
  case (Cons sec rest)
  obtain head paras where sec: "sec = (head, paras)" by (cases sec)
  have rest: "\<forall>k. routed E k rest = []" using Cons.prems by (simp add: sec routed_Cons)
  show ?case
  proof (cases "canonical E head")
    case None
    then show ?thesis using Cons.IH[OF rest] by (simp add: sec)
  next
    case (Some k')
    from Cons.prems have "routed E k' ((head, paras) # rest) = []" by (simp add: sec)
    with Some have "filter (\<lambda>txt. txt \<noteq> []) paras = []" by (simp add: routed_Cons)
    then show ?thesis using Some Cons.IH[OF rest] by (simp add: sec make_objs_none)
  qed
qed

lemma add_sections_other_keys:
  "\<forall>k. key \<noteq> key_name k \<Longrightarrow> lists_under_keys subject \<Longrightarrow>
     map_of (fst (add_sections E sections subject n)) key = map_of subject key"
proof (induction sections arbitrary: subject n)
  case Nil
  show ?case by simp
next
  case (Cons sec rest)
  obtain head paras where sec: "sec = (head, paras)" by (cases sec)
  show ?case
  proof (cases "canonical E head")
    case None
    then show ?thesis using Cons.IH[OF Cons.prems] by (simp add: sec)
  next
    case (Some k')
    obtain objs n1 where m: "make_objs E k' paras n = (objs, n1)" by (cases "make_objs E k' paras n")
    show ?thesis
    proof (cases "objs = []")
      case True
      then show ?thesis using Some m Cons.IH[OF Cons.prems] by (simp add: sec)
    next
      case False
      have "map_of (fst (add_sections E rest (setdefault_extend (key_name k') objs subject) n1)) key
              = map_of (setdefault_extend (key_name k') objs subject) key"
        by (rule Cons.IH[OF Cons.prems(1) setdefault_extend_lists[OF Cons.prems(2)]])
      then show ?thesis using Some m False Cons.prems(1)
        by (simp add: sec setdefault_extend_map_of[OF Cons.prems(2)])
    qed
  qed
qed

lemma add_sections_routed:
  assumes "lists_under_keys subject"
  shows "\<exists>objs. map (field (payload_field k)) objs = map (\<lambda>t. Some (JStr t)) (routed E k sections)
           \<and> map_of (fst (add_sections E sections subject n)) (key_name k)
               = (if routed E k sections = [] then map_of subject (key_name k)
                  else Some (JArr (records subject k @ objs)))"
  using assms
proof (induction sections arbitrary: subject n)
  case Nil
  show ?case by simp
next
  case (Cons sec rest)
  obtain head paras where sec: "sec = (head, paras)" by (cases sec)
  show ?case
  proof (cases "canonical E head")
    case None
    then show ?thesis using Cons.IH[OF Cons.prems, of n] by (simp add: sec routed_Cons)
  next
    case (Some k')
    obtain objs1 n1 where m: "make_objs E k' paras n = (objs1, n1)" by (cases "make_objs E k' paras n")
    have p1: "map (field (payload_field k')) objs1 = map (\<lambda>t. Some (JStr t)) (filter (\<lambda>txt. txt \<noteq> []) paras)"
      using make_objs_payload[of k' E paras n] m by simp
    show ?thesis
    proof (cases "objs1 = []")
      case True
      with p1 have "filter (\<lambda>txt. txt \<noteq> []) paras = []" by simp
      then show ?thesis using Some m True Cons.IH[OF Cons.prems, of n1] by (simp add: sec routed_Cons)
    next
      case False
      with p1 have ne: "filter (\<lambda>txt. txt \<noteq> []) paras \<noteq> []" by auto
      let ?s2 = "setdefault_extend (key_name k') objs1 subject"
      have l2: "lists_under_keys ?s2" by (rule setdefault_extend_lists[OF Cons.prems])
      from Cons.IH[OF l2, of n1] obtain objs2 where
        p2: "map (field (payload_field k)) objs2 = map (\<lambda>t. Some (JStr t)) (routed E k rest)"
        and f2: "map_of (fst (add_sections E rest ?s2 n1)) (key_name k)
                   = (if routed E k rest = [] then map_of ?s2 (key_name k)
                      else Some (JArr (records ?s2 k @ objs2)))"
        by blast
      have step: "fst (add_sections E (sec # rest) subject n) = fst (add_sections E rest ?s2 n1)"
        using Some m False by (simp add: sec)
      show ?thesis
      proof (cases "k' = k")
        case True
        have r2: "records ?s2 k = records subject k @ objs1"
          using True by (simp add: records_def setdefault_extend_map_of[OF Cons.prems])
        have m2: "map_of ?s2 (key_name k) = Some (JArr (records subject k @ objs1))"
          using True by (simp add: setdefault_extend_map_of[OF Cons.prems])
        have o2: "routed E k rest = [] \<Longrightarrow> objs2 = []" using p2 by simp
        have "map (field (payload_field k)) (objs1 @ objs2)
                = map (\<lambda>t. Some (JStr t)) (routed E k (sec # rest))"
          using p1 p2 True Some by (simp add: sec routed_Cons)
        moreover have "map_of (fst (add_sections E rest ?s2 n1)) (key_name k)
                = (if routed E k (sec # rest) = [] then map_of subject (key_name k)
                   else Some (JArr (records subject k @ objs1 @ objs2)))"
          using f2 r2 m2 o2 ne True Some by (auto simp add: sec routed_Cons)
        then have "map_of (fst (add_sections E (sec # rest) subject n)) (key_name k)
                = (if routed E k (sec # rest) = [] then map_of subject (key_name k)
                   else Some (JArr (records subject k @ objs1 @ objs2)))"
          by (simp only: step)
        ultimately show ?thesis by blast
      next
        case False
        have r2: "records ?s2 k = records subject k"
          using False by (simp add: records_def setdefault_extend_map_of[OF Cons.prems])
        have m2: "map_of ?s2 (key_name k) = map_of subject (key_name k)"
          using False by (simp add: setdefault_extend_map_of[OF Cons.prems])
        have rr: "routed E k (sec # rest) = routed E k rest"
          using False Some by (simp add: sec routed_Cons)
        have "map_of (fst (add_sections E rest ?s2 n1)) (key_name k)
                = (if routed E k rest = [] then map_of subject (key_name k)
                   else Some (JArr (records subject k @ objs2)))"
          using f2 by (simp add: r2 m2)
        then have "map_of (fst (add_sections E (sec # rest) subject n)) (key_name k)
                = (if routed E k (sec # rest) = [] then map_of subject (key_name k)
                   else Some (JArr (records subject k @ objs2)))"
          by (simp only: step rr)
        moreover have "map (field (payload_field k)) objs2 = map (\<lambda>t. Some (JStr t)) (routed E k (sec # rest))"
          using p2 by (simp only: rr)
        ultimately show ?thesis by blast
      qed
    qed
  qed
qed

lemma derive_given_Inl: "derive_given E name a = Inl e \<longleftrightarrow> blank_title E name a"
  by (cases e) (auto simp add: derive_given_def blank_title_def split: option.split list.split)

lemma personal_data_Inr:
  "\<not> blank_title E name a \<Longrightarrow>
     \<exists>given. derive_given E name a = Inr given
       \<and> personal_data E name a =
           Inr [(u ''givenName'', opt_json given),
                (u ''familyName'', opt_json (derive_family E name a)),
                (u ''email'', or_None (email a)),
                (u ''phone'', or_None (phone a))]"
  using derive_given_Inl[of E name a]
  by (cases "derive_given E name a") (auto simp add: personal_data_def)

lemma personal_data_Inl: "blank_title E name a \<Longrightarrow> personal_data E name a = Inl IndexError"
  using derive_given_Inl[of E name a IndexError] by (simp add: personal_data_def)

lemma lists_under_keys_base:
  "lists_under_keys [(u ''id'', x), (u ''type'', y), (u ''personalData'', z)]"
  by (simp add: lists_under_keys_def)

lemma add_sections_base:
  "\<exists>objs. map (field (payload_field k)) objs = map (\<lambda>t. Some (JStr t)) (routed E k sections)
      \<and> map_of (fst (add_sections E sections [(u ''id'', x), (u ''type'', y), (u ''personalData'', z)] n))
            (key_name k)
          = (if routed E k sections = [] then None else Some (JArr objs))"
proof -
  let ?s0 = "[(u ''id'', x), (u ''type'', y), (u ''personalData'', z)]"
  from add_sections_routed[OF lists_under_keys_base, of k E sections x y z n]
  obtain objs where
    p: "map (field (payload_field k)) objs = map (\<lambda>t. Some (JStr t)) (routed E k sections)"
    and m: "map_of (fst (add_sections E sections ?s0 n)) (key_name k)
              = (if routed E k sections = [] then map_of ?s0 (key_name k)
                 else Some (JArr (records ?s0 k @ objs)))"
    by blast
  have "map_of ?s0 (key_name k) = None" by simp
  moreover have "records ?s0 k = []" by (simp add: records_def)
  ultimately have "map_of (fst (add_sections E sections ?s0 n)) (key_name k)
              = (if routed E k sections = [] then None else Some (JArr objs))"
    using m by simp
  with p show ?thesis by blast
qed

lemma populated_iff: "populated E sections \<longleftrightarrow> (\<exists>k. routed E k sections \<noteq> [])"
proof -
  have "\<And>k. k \<in> set CANONICAL_KEYS" by (case_tac k) (simp_all add: CANONICAL_KEYS_def)
  then show ?thesis by (auto simp add: populated_def list_ex_iff)
qed

lemma build_subject_Inr:
  assumes "\<not> blank_title E name a"
  shows "\<exists>personal subject1 n2.
           personal_data E name a = Inr personal
         \<and> add_sections E sections
              [(u ''id'', JStr (fst (or_uuid E (subject_id a) n0))),
               (u ''type'', JStr (u ''ResumeSubject'')),
               (u ''personalData'', JObj personal)] (snd (or_uuid E (subject_id a) n0)) = (subject1, n2)
         \<and> build_subject E name sections a n0 =
             (if populated E sections then Inr (subject1, n2)
              else Inr (AList.update (u ''positionHistory'')
                          (JArr [fallback_position (fst (new_uuid E n2))]) subject1, snd (new_uuid E n2)))"
proof -
  from personal_data_Inr[OF assms] obtain personal where p: "personal_data E name a = Inr personal"
    by blast
  let ?s0 = "[(u ''id'', JStr (fst (or_uuid E (subject_id a) n0))),
              (u ''type'', JStr (u ''ResumeSubject'')),
              (u ''personalData'', JObj personal)]"
  let ?n1 = "snd (or_uuid E (subject_id a) n0)"
  obtain subject1 n2 where s: "add_sections E sections ?s0 ?n1 = (subject1, n2)"
    by (cases "add_sections E sections ?s0 ?n1")
  have "map_of subject1 (key_name k) \<noteq> None \<longleftrightarrow> routed E k sections \<noteq> []" for k
    using add_sections_base[of k E sections "JStr (fst (or_uuid E (subject_id a) n0))"
            "JStr (u ''ResumeSubject'')" "JObj personal" ?n1] s
    by (auto split: if_splits)
  then have c: "list_ex (\<lambda>key. map_of subject1 (key_name key) \<noteq> None) CANONICAL_KEYS
                  \<longleftrightarrow> populated E sections"
    by (simp add: populated_def)
  have "build_subject E name sections a n0 =
             (if populated E sections then Inr (subject1, n2)
              else Inr (AList.update (u ''positionHistory'')
                          (JArr [fallback_position (fst (new_uuid E n2))]) subject1, snd (new_uuid E n2)))"
    using p s c by (simp add: build_subject_def case_prod_beta)
  with p s show ?thesis by blast
qed

lemma build_vc_Inl: "blank_title E name a \<Longrightarrow> build_vc E name sections a n0 = Inl IndexError"
  by (simp add: build_vc_def build_subject_def personal_data_Inl)

lemma build_vc_Inr:
  assumes "build_subject E name sections a n0 = Inr (subject, n3)"
  shows "\<exists>kvs. build_vc E name sections a n0 = Inr (JObj kvs)
           \<and> map_of kvs (u ''credentialSubject'') = Some (JObj subject)
           \<and> map_of kvs (u ''issuer'')
               = Some (JObj [(u ''type'', JStr (u ''Organization'')),
                             (u ''id'', JStr (fst (or_uuid E (issuer_id a) n3))),
                             (u ''name'', JStr (or_default (issuer_name a) default_issuer_name))])
           \<and> (\<exists>created mid. map_of kvs (u ''proof'')
               = Some (JObj [(u ''type'', JStr (u ''JsonWebSignature2020'')),
                             (u ''created'', JStr created),
                             (u ''proofPurpose'', JStr (u ''assertionMethod'')),
                             (u ''verificationMethod'', JStr mid),
                             (u ''jws'', JStr [])]))"
proof (cases "truthy name")
  case True
  then obtain nm where "name = Some nm" "nm \<noteq> []" by (auto simp add: truthy_def split: option.splits)
  then show ?thesis using assms
    by (simp add: build_vc_def case_prod_beta Let_def update_conv')
next
  case False
  then have "name = None \<or> name = Some []" by (auto simp add: truthy_def split: option.splits)
  then show ?thesis using assms
    by (auto simp add: build_vc_def case_prod_beta Let_def)
qed

lemma map_of_map_values:
  "map_of (map (\<lambda>(k, v). (k, f v)) xs) key = map_option f (map_of xs key)"
  by (simp add: map_of_map)

lemma normalize_vc_proof:
  assumes "map_of kvs (u ''proof'')
             = Some (JObj [(u ''type'', JStr ty), (u ''created'', JStr created),
                           (u ''proofPurpose'', JStr pp), (u ''verificationMethod'', JStr mid),
                           (u ''jws'', JStr [])])"
  shows "field (u ''proof'') (replace_nulls (JObj kvs))
           = Some (JObj [(u ''type'', JStr ty), (u ''created'', JStr created),
                         (u ''proofPurpose'', JStr pp), (u ''verificationMethod'', JStr mid),
                         (u ''jws'', JStr [])])"
    and "field (u ''proof'') (normalize_vc (JObj kvs))
           = Some (JObj [(u ''type'', JStr ty), (u ''created'', JStr created),
                         (u ''proofPurpose'', JStr pp), (u ''verificationMethod'', JStr mid),
                         (u ''jws'', JStr (u ''dummy''))])"
    and "key \<noteq> u ''proof'' \<Longrightarrow> field key (normalize_vc (JObj kvs)) = field key (replace_nulls (JObj kvs))"
  using assms
  by (simp_all add: normalize_vc_def map_of_map_values update_conv')



lemma clean_replace_nulls: "clean (replace_nulls v)"
  by (induction v rule: replace_nulls.induct) (auto simp add: Let_def list_all_iff)

lemma subject_of_JObj:
  "map_of kvs (u ''credentialSubject'') = Some (JObj subject) \<Longrightarrow> subject_of (JObj kvs) = subject"
  by (simp add: subject_of_def)

lemma build_vc_shape:
  assumes "\<not> blank_title E name a"
  shows "\<exists>kvs personal subject1 n2 n3 created mid.
           build_vc E name sections a n0 = Inr (JObj kvs)
         \<and> personal_data E name a = Inr personal
         \<and> add_sections E sections
              [(u ''id'', JStr (fst (or_uuid E (subject_id a) n0))),
               (u ''type'', JStr (u ''ResumeSubject'')),
               (u ''personalData'', JObj personal)] (snd (or_uuid E (subject_id a) n0)) = (subject1, n2)
         \<and> subject_of (JObj kvs) =
              (if populated E sections then subject1
               else AList.update (u ''positionHistory'')
                      (JArr [fallback_position (fst (new_uuid E n2))]) subject1)
         \<and> map_of kvs (u ''issuer'')
               = Some (JObj [(u ''type'', JStr (u ''Organization'')),
                             (u ''id'', JStr (fst (or_uuid E (issuer_id a) n3))),
                             (u ''name'', JStr (or_default (issuer_name a) default_issuer_name))])
         \<and> map_of kvs (u ''proof'')
               = Some (JObj [(u ''type'', JStr (u ''JsonWebSignature2020'')),
                             (u ''created'', JStr created),
                             (u ''proofPurpose'', JStr (u ''assertionMethod'')),
                             (u ''verificationMethod'', JStr mid),
                             (u ''jws'', JStr [])])
         \<and> map_of kvs (u ''credentialSubject'') = Some (JObj (subject_of (JObj kvs)))"
proof -
  from build_subject_Inr[OF assms, of sections n0] obtain personal subject1 n2 where
    p: "personal_data E name a = Inr personal"
    and s: "add_sections E sections
              [(u ''id'', JStr (fst (or_uuid E (subject_id a) n0))),
               (u ''type'', JStr (u ''ResumeSubject'')),
               (u ''personalData'', JObj personal)] (snd (or_uuid E (subject_id a) n0)) = (subject1, n2)"
    and b: "build_subject E name sections a n0 =
             (if populated E sections then Inr (subject1, n2)
              else Inr (AList.update (u ''positionHistory'')
                          (JArr [fallback_position (fst (new_uuid E n2))]) subject1, snd (new_uuid E n2)))"
    by blast
  let ?subject = "if populated E sections then subject1
                  else AList.update (u ''positionHistory'')
                         (JArr [fallback_position (fst (new_uuid E n2))]) subject1"
  let ?n3 = "if populated E sections then n2 else snd (new_uuid E n2)"
  have "build_subject E name sections a n0 = Inr (?subject, ?n3)" using b by simp
  from build_vc_Inr[OF this] obtain kvs created mid where
    v: "build_vc E name sections a n0 = Inr (JObj kvs)"
    and c: "map_of kvs (u ''credentialSubject'') = Some (JObj ?subject)"
    and i: "map_of kvs (u ''issuer'')
               = Some (JObj [(u ''type'', JStr (u ''Organization'')),
                             (u ''id'', JStr (fst (or_uuid E (issuer_id a) ?n3))),
                             (u ''name'', JStr (or_default (issuer_name a) default_issuer_name))])"
    and pr: "map_of kvs (u ''proof'')
               = Some (JObj [(u ''type'', JStr (u ''JsonWebSignature2020'')),
                             (u ''created'', JStr created),
                             (u ''proofPurpose'', JStr (u ''assertionMethod'')),
                             (u ''verificationMethod'', JStr mid),
                             (u ''jws'', JStr [])])"
    by blast
  have so: "subject_of (JObj kvs) = ?subject" by (rule subject_of_JObj[OF c])
  from c so have c': "map_of kvs (u ''credentialSubject'') = Some (JObj (subject_of (JObj kvs)))"
    by simp
  from v p s so i pr c' show ?thesis by blast
qed

lemma records_payloads:
  assumes "add_sections E sections
              [(u ''id'', x), (u ''type'', y), (u ''personalData'', z)] n1 = (subject1, n2)"
  shows "map (field (payload_field k)) (records subject1 k) = map (\<lambda>t. Some (JStr t)) (routed E k sections)"
    and "map_of subject1 (key_name k) = None \<longleftrightarrow> routed E k sections = []"
proof -
  from add_sections_base[of k E sections x y z n1] assms obtain objs where
    p: "map (field (payload_field k)) objs = map (\<lambda>t. Some (JStr t)) (routed E k sections)"
    and m: "map_of subject1 (key_name k) = (if routed E k sections = [] then None else Some (JArr objs))"
    by auto
  show "map (field (payload_field k)) (records subject1 k) = map (\<lambda>t. Some (JStr t)) (routed E k sections)"
    using p m by (cases "routed E k sections = []") (simp_all add: records_def)
  show "map_of subject1 (key_name k) = None \<longleftrightarrow> routed E k sections = []"
    using m by simp
qed



lemma collections_map_values:
  "collections (map (\<lambda>(k, v). (k, f v)) subject) = map (\<lambda>(k, v). (k, f v)) (collections subject)"
  by (induction subject) (auto simp add: collections_def)

lemma subject_of_normalize_vc:
  assumes "map_of kvs (u ''credentialSubject'') = Some (JObj subject)"
    and "map_of kvs (u ''proof'')
             = Some (JObj [(u ''type'', JStr ty), (u ''created'', JStr created),
                           (u ''proofPurpose'', JStr pp), (u ''verificationMethod'', JStr mid),
                           (u ''jws'', JStr [])])"
  shows "subject_of (normalize_vc (JObj kvs)) = map (\<lambda>(k, v). (k, replace_nulls v)) subject"
proof -
  have "field (u ''credentialSubject'') (normalize_vc (JObj kvs))
          = field (u ''credentialSubject'') (replace_nulls (JObj kvs))"
    by (rule normalize_vc_proof(3)[OF assms(2)]) simp
  then show ?thesis using assms(1) by (simp add: subject_of_def map_of_map_values)
qed

lemma or_uuid_override: "v \<noteq> [] \<Longrightarrow> or_uuid E (Some v) n = (v, n)"
  by (simp add: or_uuid_def)

lemma subject_base_fields:
  assumes "add_sections E sections
              [(u ''id'', x), (u ''type'', y), (u ''personalData'', z)] n1 = (subject1, n2)"
  shows "map_of (if c then subject1 else AList.update (u ''positionHistory'') w subject1) (u ''id'') = Some x"
    and "map_of (if c then subject1 else AList.update (u ''positionHistory'') w subject1) (u ''personalData'')
           = Some z"
proof -
  have i: "\<forall>k. u ''id'' \<noteq> key_name k" and p: "\<forall>k. u ''personalData'' \<noteq> key_name k" by simp_all
  from add_sections_other_keys[OF i lists_under_keys_base, of E sections x y z n1] assms
  have "map_of subject1 (u ''id'') = Some x" by simp
  then show "map_of (if c then subject1 else AList.update (u ''positionHistory'') w subject1) (u ''id'') = Some x"
    by (simp add: update_conv')
  from add_sections_other_keys[OF p lists_under_keys_base, of E sections x y z n1] assms
  have "map_of subject1 (u ''personalData'') = Some z" by simp
  then show "map_of (if c then subject1 else AList.update (u ''positionHistory'') w subject1) (u ''personalData'')
           = Some z"
    by (simp add: update_conv')
qed

lemma derive_given_override:
  "v \<noteq> [] \<Longrightarrow> given_name a = Some v \<Longrightarrow> derive_given E name a = Inr (Some v)"
  by (simp add: derive_given_def truthy_def)

lemma derive_family_override:
  "v \<noteq> [] \<Longrightarrow> family_name a = Some v \<Longrightarrow> derive_family E name a = Some v"
  by (simp add: derive_family_def truthy_def)





text \<open>\<open>build_vc\<close> reads an override only through its \<open>or\<close> expression.\<close>

lemma build_vc_cong_args:
  assumes "or_uuid E (subject_id a) = or_uuid E (subject_id b)"
    and "or_uuid E (issuer_id a) = or_uuid E (issuer_id b)"
    and "or_default (issuer_name a) = or_default (issuer_name b)"
    and "derive_given E name a = derive_given E name b"
    and "derive_family E name a = derive_family E name b"
    and "or_None (email a) = or_None (email b)"
    and "or_None (phone a) = or_None (phone b)"
  shows "build_vc E name sections a n = build_vc E name sections b n"
  unfolding build_vc_def build_subject_def personal_data_def assms by (rule refl)

lemma empty_override_absent:
  "subject_id a = Some [] \<Longrightarrow>
     build_vc E name sections a n = build_vc E name sections (a\<lparr>subject_id := None\<rparr>) n"
  "issuer_id a = Some [] \<Longrightarrow>
     build_vc E name sections a n = build_vc E name sections (a\<lparr>issuer_id := None\<rparr>) n"
  "issuer_name a = Some [] \<Longrightarrow>
     build_vc E name sections a n = build_vc E name sections (a\<lparr>issuer_name := None\<rparr>) n"
  "given_name a = Some [] \<Longrightarrow>
     build_vc E name sections a n = build_vc E name sections (a\<lparr>given_name := None\<rparr>) n"
  "family_name a = Some [] \<Longrightarrow>
     build_vc E name sections a n = build_vc E name sections (a\<lparr>family_name := None\<rparr>) n"
  "email a = Some [] \<Longrightarrow>
     build_vc E name sections a n = build_vc E name sections (a\<lparr>email := None\<rparr>) n"
  "phone a = Some [] \<Longrightarrow>
     build_vc E name sections a n = build_vc E name sections (a\<lparr>phone := None\<rparr>) n"
  by (rule build_vc_cong_args;
      simp add: or_uuid_def or_default_def or_None_def derive_given_def derive_family_def
        truthy_def fun_eq_iff)+

section \<open>Position records\<close>

text \<open>
  Claim C1, as the code has it. When the text has a separator and the role keywords match
  neither the left nor the right side of the first one, \<open>jobTitle\<close> is the right side
  and \<open>organization\<close> the left side (the source tests the left side only and swaps the
  sides when that test fails); an empty side is recorded as null.
\<close>

theorem to_position_no_keyword:
  assumes "re_split1 E txt = Some (l, r)" and "\<not> ROLE_RE_search E l" and "\<not> ROLE_RE_search E r"
  shows "field (u ''jobTitle'') (fst (to_position E txt n)) = Some (if r = [] then JNull else JStr r)
       \<and> field (u ''organization'') (fst (to_position E txt n)) = Some (if l = [] then JNull else JStr l)"
  using assms by (simp add: to_position_def new_uuid_def or_None_def)

theorem to_position_no_keyword_witness:
  "field (u ''jobTitle'') (fst (to_position ascii_runtime (u ''Acme Corp'' @ [32, 8211, 32] @ u ''Globex'') 0))
     = Some (JStr (u ''Globex''))
   \<and> field (u ''organization'') (fst (to_position ascii_runtime (u ''Acme Corp'' @ [32, 8211, 32] @ u ''Globex'') 0))
     = Some (JStr (u ''Acme Corp''))"
proof -
  have a: "re_split1 ascii_runtime (u ''Acme Corp'' @ [32, 8211, 32] @ u ''Globex'')
             = Some (u ''Acme Corp'', u ''Globex'')"
    by code_simp
  have b: "\<not> ROLE_RE_search ascii_runtime (u ''Acme Corp'')" by code_simp
  have c: "\<not> ROLE_RE_search ascii_runtime (u ''Globex'')" by code_simp
  show ?thesis using to_position_no_keyword[OF a b c] by simp
qed

text \<open>
  The default-left rule of claim C1 fails on \<open>Acme Corp - Beta Inc\<close>: no keyword on either
  side, and \<open>jobTitle\<close> is the right side \<open>Beta Inc\<close>.
\<close>

theorem to_position_default_left_counterexample:
  "re_split1 ascii_runtime (u ''Acme Corp - Beta Inc'') = Some (u ''Acme Corp'', u ''Beta Inc'')
   \<and> \<not> ROLE_RE_search ascii_runtime (u ''Acme Corp'')
   \<and> \<not> ROLE_RE_search ascii_runtime (u ''Beta Inc'')
   \<and> field (u ''jobTitle'') (fst (to_position ascii_runtime (u ''Acme Corp - Beta Inc'') 0))
       = Some (JStr (u ''Beta Inc''))
   \<and> field (u ''jobTitle'') (fst (to_position ascii_runtime (u ''Acme Corp - Beta Inc'') 0))
       \<noteq> Some (JStr (u ''Acme Corp''))
   \<and> field (u ''organization'') (fst (to_position ascii_runtime (u ''Acme Corp - Beta Inc'') 0))
       = Some (JStr (u ''Acme Corp''))
   \<and> field (u ''organization'') (fst (to_position ascii_runtime (u ''Acme Corp - Beta Inc'') 0))
       \<noteq> Some (JStr (u ''Beta Inc''))"
  by code_simp



text \<open>
  Claim C9. When the text has a separator and the role keywords match both sides of the
  first one, the left side is \<open>jobTitle\<close> and the right side \<open>organization\<close>.
\<close>

theorem to_position_both_match:
  assumes "re_split1 E txt = Some (l, r)" and "ROLE_RE_search E l" and "ROLE_RE_search E r"
  shows "field (u ''jobTitle'') (fst (to_position E txt n)) = Some (JStr l)
       \<and> field (u ''organization'') (fst (to_position E txt n)) = Some (JStr r)"
  using assms search_nonempty[of E l] search_nonempty[of E r]
  by (simp add: to_position_def new_uuid_def or_None_def)

theorem to_position_both_match_witness:
  "field (u ''jobTitle'') (fst (to_position ascii_runtime (u ''Lead Engineer'' @ [32, 8211, 32] @ u ''Director of Data'') 0))
     = Some (JStr (u ''Lead Engineer''))
   \<and> field (u ''organization'') (fst (to_position ascii_runtime (u ''Lead Engineer'' @ [32, 8211, 32] @ u ''Director of Data'') 0))
     = Some (JStr (u ''Director of Data''))"
proof -
  have a: "re_split1 ascii_runtime (u ''Lead Engineer'' @ [32, 8211, 32] @ u ''Director of Data'')
             = Some (u ''Lead Engineer'', u ''Director of Data'')"
    by code_simp
  have b: "ROLE_RE_search ascii_runtime (u ''Lead Engineer'')" by code_simp
  have c: "ROLE_RE_search ascii_runtime (u ''Director of Data'')" by code_simp
  show ?thesis by (rule to_position_both_match[OF a b c])
qed

text \<open>
  Claim C10. The \<open>description\<close> of a Position record is the whole text it was built
  from, separator and both sides included, whether or not the text was cut; it is null
  exactly for the empty text.
\<close>

theorem to_position_description:
  "field (u ''description'') (fst (to_position E txt n)) = Some (if txt = [] then JNull else JStr txt)"
  by (simp add: to_position_def new_uuid_def or_None_def split: option.split prod.split)

section \<open>Normalisation of nulls\<close>

text \<open>
  Claim C6. \<open>replace_nulls\<close> is idempotent on every value: null, scalar, array or map.
\<close>

theorem replace_nulls_idempotent: "replace_nulls (replace_nulls v) = replace_nulls v"
proof (induction v rule: replace_nulls.induct)
  case 1 show ?case by simp
next
  case (2 xs)
  then show ?case by (cases xs) (simp_all add: Let_def)
next
  case (3 kvs)
  then show ?case by (auto simp add: comp_def)
qed simp_all

text \<open>
  Claim C7. \<open>replace_nulls\<close> turns null into \<open>Unknown\<close> and the empty array into the
  array of the one element \<open>Unknown\<close>, maps over a non-empty array and over the values of a
  map, keeping length, keys and order, and leaves every other scalar, the empty string
  among them, as it is; no null and no empty array is left in its result. The pass of
  \<open>main\<close> applies it to the assembled credential, whose \<open>jws\<close> is the empty string
  before and after it, and then sets \<open>jws\<close> to \<open>dummy\<close>, changing nothing else in the
  proof or in the credential.
\<close>

theorem normalization_pass:
  "replace_nulls JNull = JStr (u ''Unknown'')
   \<and> replace_nulls (JArr []) = JArr [JStr (u ''Unknown'')]
   \<and> (xs \<noteq> [] \<longrightarrow> replace_nulls (JArr xs) = JArr (map replace_nulls xs))
   \<and> replace_nulls (JObj kvs) = JObj (map (\<lambda>(k, v). (k, replace_nulls v)) kvs)
   \<and> replace_nulls (JStr s) = JStr s
   \<and> replace_nulls (JBool b) = JBool b
   \<and> replace_nulls (JNum i) = JNum i
   \<and> clean (replace_nulls v)
   \<and> (\<not> blank_title E name a \<longrightarrow>
        (\<exists>vc. build_vc E name sections a n = Inr vc
           \<and> proof_field (u ''jws'') vc = Some (JStr [])
           \<and> proof_field (u ''jws'') (replace_nulls vc) = Some (JStr [])
           \<and> proof_field (u ''jws'') (normalize_vc vc) = Some (JStr (u ''dummy''))
           \<and> (\<forall>key. key \<noteq> u ''jws'' \<longrightarrow>
                  proof_field key (normalize_vc vc) = proof_field key (replace_nulls vc))
           \<and> (\<forall>key. key \<noteq> u ''proof'' \<longrightarrow>
                  field key (normalize_vc vc) = field key (replace_nulls vc))))"
proof (intro conjI impI)
  show "clean (replace_nulls v)" by (rule clean_replace_nulls)
next
  assume "xs \<noteq> []"
  then show "replace_nulls (JArr xs) = JArr (map replace_nulls xs)" by (simp add: Let_def)
next
  assume nb: "\<not> blank_title E name a"
  from build_vc_shape[OF nb, of sections n] obtain kvs created mid where
    v: "build_vc E name sections a n = Inr (JObj kvs)"
    and pr: "map_of kvs (u ''proof'')
               = Some (JObj [(u ''type'', JStr (u ''JsonWebSignature2020'')),
                             (u ''created'', JStr created),
                             (u ''proofPurpose'', JStr (u ''assertionMethod'')),
                             (u ''verificationMethod'', JStr mid),
                             (u ''jws'', JStr [])])"
    by blast
  note N = normalize_vc_proof[OF pr]
  have 1: "proof_field (u ''jws'') (JObj kvs) = Some (JStr [])"
    by (simp add: proof_field_def pr)
  have 2: "proof_field (u ''jws'') (replace_nulls (JObj kvs)) = Some (JStr [])"
    unfolding proof_field_def N(1) by simp
  have 3: "proof_field (u ''jws'') (normalize_vc (JObj kvs)) = Some (JStr (u ''dummy''))"
    unfolding proof_field_def N(2) by simp
  have 4: "\<forall>key. key \<noteq> u ''jws'' \<longrightarrow>
             proof_field key (normalize_vc (JObj kvs)) = proof_field key (replace_nulls (JObj kvs))"
    unfolding proof_field_def N(1) N(2) by simp
  have 5: "\<forall>key. key \<noteq> u ''proof'' \<longrightarrow>
             field key (normalize_vc (JObj kvs)) = field key (replace_nulls (JObj kvs))"
    using N(3) by blast
  from v 1 2 3 4 5
  show "\<exists>vc. build_vc E name sections a n = Inr vc
           \<and> proof_field (u ''jws'') vc = Some (JStr [])
           \<and> proof_field (u ''jws'') (replace_nulls vc) = Some (JStr [])
           \<and> proof_field (u ''jws'') (normalize_vc vc) = Some (JStr (u ''dummy''))
           \<and> (\<forall>key. key \<noteq> u ''jws'' \<longrightarrow>
                  proof_field key (normalize_vc vc) = proof_field key (replace_nulls vc))
           \<and> (\<forall>key. key \<noteq> u ''proof'' \<longrightarrow>
                  field key (normalize_vc vc) = field key (replace_nulls vc))"
    by blast
qed simp_all

theorem normalization_pass_witness:
  "replace_nulls (JArr [JNull, JArr []]) = JArr [JStr (u ''Unknown''), JArr [JStr (u ''Unknown'')]]
   \<and> (\<exists>vc. build_vc ascii_runtime (Some (u ''Jane Q Public'')) alias_sections no_overrides 0 = Inr vc
          \<and> proof_field (u ''jws'') (replace_nulls vc) = Some (JStr [])
          \<and> proof_field (u ''jws'') (normalize_vc vc) = Some (JStr (u ''dummy''))
          \<and> proof_field (u ''type'') (normalize_vc vc) = proof_field (u ''type'') (replace_nulls vc)
          \<and> field (u ''issuer'') (normalize_vc vc) = field (u ''issuer'') (replace_nulls vc))"
proof -
  have b: "\<not> blank_title ascii_runtime (Some (u ''Jane Q Public'')) no_overrides" by code_simp
  have n: "[JNull, JArr []] \<noteq> []" by (rule list.distinct(2))
  note T = normalization_pass[of "[JNull, JArr []]" "[]" "[]" True 0 JNull ascii_runtime
             "Some (u ''Jane Q Public'')" no_overrides alias_sections 0]
  have 1: "replace_nulls (JArr [JNull, JArr []]) = JArr [JStr (u ''Unknown''), JArr [JStr (u ''Unknown'')]]"
    using T[THEN conjunct2, THEN conjunct2, THEN conjunct1, THEN mp, OF n]
          T[THEN conjunct1] T[THEN conjunct2, THEN conjunct1]
    by (simp only: list.map)
  from T[THEN conjunct2, THEN conjunct2, THEN conjunct2, THEN conjunct2, THEN conjunct2,
         THEN conjunct2, THEN conjunct2, THEN conjunct2, THEN mp, OF b]
  obtain vc where
    v: "build_vc ascii_runtime (Some (u ''Jane Q Public'')) alias_sections no_overrides 0 = Inr vc"
    and j1: "proof_field (u ''jws'') (replace_nulls vc) = Some (JStr [])"
    and j2: "proof_field (u ''jws'') (normalize_vc vc) = Some (JStr (u ''dummy''))"
    and k1: "\<forall>key. key \<noteq> u ''jws'' \<longrightarrow>
               proof_field key (normalize_vc vc) = proof_field key (replace_nulls vc)"
    and k2: "\<forall>key. key \<noteq> u ''proof'' \<longrightarrow> field key (normalize_vc vc) = field key (replace_nulls vc)"
    by (elim exE conjE)
  have d1: "u ''type'' \<noteq> u ''jws''" by simp
  have d2: "u ''issuer'' \<noteq> u ''proof''" by simp
  note a1 = k1[THEN spec, THEN mp, OF d1]
  note a2 = k2[THEN spec, THEN mp, OF d2]
  have "\<exists>vc. build_vc ascii_runtime (Some (u ''Jane Q Public'')) alias_sections no_overrides 0 = Inr vc
          \<and> proof_field (u ''jws'') (replace_nulls vc) = Some (JStr [])
          \<and> proof_field (u ''jws'') (normalize_vc vc) = Some (JStr (u ''dummy''))
          \<and> proof_field (u ''type'') (normalize_vc vc) = proof_field (u ''type'') (replace_nulls vc)
          \<and> field (u ''issuer'') (normalize_vc vc) = field (u ''issuer'') (replace_nulls vc)"
    by (rule exI[of _ vc]) (intro conjI v j1 j2 a1 a2)
  with 1 show ?thesis by (rule conjI)
qed

section \<open>Repeated headings\<close>

text \<open>
  Claim C5. When a section heading is detected, its group is reset to the empty list,
  whatever stood under the same heading text before; and when no later paragraph is
  detected as a heading with that text, the group in the output holds exactly the body
  paragraphs between this occurrence and the next heading. The paragraphs \<open>ps1\<close> in front
  of the occurrence, among them any earlier occurrence of the heading and its body, do not
  reach the group.
\<close>

theorem repeated_heading_resets:
  assumes "is_heading_para E h"
    and "\<forall>p\<in>set ps2. is_heading_para E p \<longrightarrow> heading_text E p \<noteq> heading_text E h"
  shows "map_of (snd (parse_docx E (ps1 @ [h]))) (heading_text E h) = Some []
       \<and> map_of (snd (parse_docx E (ps1 @ h # ps2))) (heading_text E h) = Some (body_run E ps2)"
proof -
  obtain nm cur out where st: "foldl (parse_step E) (None, None, []) ps1 = (nm, cur, out)"
    by (metis prod_cases3)
  let ?t = "heading_text E h"
  have ne: "?t \<noteq> []" using assms(1) by (simp add: is_heading_para_def heading_text_def)
  have m: "map_of (AList.update ?t [] out) ?t = Some []" by (simp add: update_conv')
  have "map_of (snd (snd (foldl (parse_step E) (nm, Some ?t, AList.update ?t [] out) ps2))) ?t
          = Some ([] @ body_run E ps2)"
    by (rule open_group_collects[OF ne m assms(2)])
  then show ?thesis
    using st m by (simp add: snd_parse_docx parse_step_heading[OF assms(1)])
qed

theorem repeated_heading_resets_witness:
  "map_of (snd (parse_docx ascii_runtime (doc_before @ [doc_heading]))) (u ''WORK HISTORY'') = Some []
   \<and> map_of (snd (parse_docx ascii_runtime (doc_before @ doc_heading # doc_after))) (u ''WORK HISTORY'')
       = Some [u ''Software Engineer - Acme Corp'']
   \<and> map_of (snd (parse_docx ascii_runtime doc_before)) (u ''WORK HISTORY'') = Some [u ''Clerk - Old Bank'']"
proof -
  have h: "is_heading_para ascii_runtime doc_heading" by code_simp
  have n: "\<forall>p\<in>set doc_after. is_heading_para ascii_runtime p \<longrightarrow>
             heading_text ascii_runtime p \<noteq> heading_text ascii_runtime doc_heading"
    by code_simp
  have t: "heading_text ascii_runtime doc_heading = u ''WORK HISTORY''" by code_simp
  have b: "body_run ascii_runtime doc_after = [u ''Software Engineer - Acme Corp'']" by code_simp
  have e: "map_of (snd (parse_docx ascii_runtime doc_before)) (u ''WORK HISTORY'') = Some [u ''Clerk - Old Bank'']"
    by code_simp
  from repeated_heading_resets[OF h n, of doc_before] e show ?thesis by (simp only: t b simp_thms)
qed

section \<open>Sections and collections\<close>

text \<open>
  Claim C3. When the groups route no non-empty paragraph to any canonical key, the only
  canonical collection of the subject is \<open>positionHistory\<close>, holding one Position record
  whose \<open>jobTitle\<close>, \<open>organization\<close> and \<open>description\<close> are null before and \<open>Unknown\<close>
  after normalisation. A document in which no heading is detected has no groups, so it is
  such an input, and its title never makes \<open>build_vc\<close> fail. When some paragraph is
  routed, every collection holds as many records as paragraphs are routed to it and none
  of them has a null payload: no fallback record is added. \<open>build_vc\<close> returns in all
  these cases; it raises only for a title without a word and no given name.
\<close>

theorem fallback_position_injected:
  "(\<not> blank_title E name a \<and> \<not> populated E sections \<longrightarrow>
      (\<exists>vc uid. build_vc E name sections a n = Inr vc
         \<and> collections (subject_of vc) = [(u ''positionHistory'', JArr [fallback_position uid])]
         \<and> field (u ''type'') (fallback_position uid) = Some (JStr (u ''Position''))
         \<and> field (u ''jobTitle'') (fallback_position uid) = Some JNull
         \<and> field (u ''organization'') (fallback_position uid) = Some JNull
         \<and> field (u ''description'') (fallback_position uid) = Some JNull
         \<and> collections (subject_of (normalize_vc vc))
             = [(u ''positionHistory'', JArr [replace_nulls (fallback_position uid)])]
         \<and> field (u ''jobTitle'') (replace_nulls (fallback_position uid)) = Some (JStr (u ''Unknown''))
         \<and> field (u ''organization'') (replace_nulls (fallback_position uid)) = Some (JStr (u ''Unknown''))
         \<and> field (u ''description'') (replace_nulls (fallback_position uid)) = Some (JStr (u ''Unknown''))))
   \<and> ((\<forall>p\<in>set ps. \<not> is_heading_para E p) \<longrightarrow>
        snd (parse_docx E ps) = []
        \<and> \<not> blank_title E (fst (parse_docx E ps)) a
        \<and> \<not> populated E (snd (parse_docx E ps)))
   \<and> (\<not> blank_title E name a \<and> populated E sections \<longrightarrow>
        (\<exists>vc. build_vc E name sections a n = Inr vc
           \<and> (\<forall>k. length (records (subject_of vc) k) = length (routed E k sections)
                  \<and> (\<forall>r\<in>set (records (subject_of vc) k). field (payload_field k) r \<noteq> Some JNull))))"
proof (intro conjI impI)
  assume h: "\<not> blank_title E name a \<and> \<not> populated E sections"
  from build_vc_shape[of E name a sections n] h obtain kvs personal subject1 n2 created mid where
    v: "build_vc E name sections a n = Inr (JObj kvs)"
    and s: "add_sections E sections
              [(u ''id'', JStr (fst (or_uuid E (subject_id a) n))),
               (u ''type'', JStr (u ''ResumeSubject'')),
               (u ''personalData'', JObj personal)] (snd (or_uuid E (subject_id a) n)) = (subject1, n2)"
    and so: "subject_of (JObj kvs) =
               AList.update (u ''positionHistory'')
                      (JArr [fallback_position (fst (new_uuid E n2))]) subject1"
    and pr: "map_of kvs (u ''proof'')
               = Some (JObj [(u ''type'', JStr (u ''JsonWebSignature2020'')),
                             (u ''created'', JStr created),
                             (u ''proofPurpose'', JStr (u ''assertionMethod'')),
                             (u ''verificationMethod'', JStr mid),
                             (u ''jws'', JStr [])])"
    and cs: "map_of kvs (u ''credentialSubject'') = Some (JObj (subject_of (JObj kvs)))"
    by auto
  from h have "\<forall>k. routed E k sections = []" by (simp add: populated_iff)
  from add_sections_none[OF this] s
  have s1: "subject1 = [(u ''id'', JStr (fst (or_uuid E (subject_id a) n))),
               (u ''type'', JStr (u ''ResumeSubject'')),
               (u ''personalData'', JObj personal)]" by simp
  let ?uid = "fst (new_uuid E n2)"
  have c: "collections (subject_of (JObj kvs)) = [(u ''positionHistory'', JArr [fallback_position ?uid])]"
    by (simp add: so s1 collections_def CANONICAL_KEYS_def)
  have "subject_of (normalize_vc (JObj kvs)) = map (\<lambda>(k, v). (k, replace_nulls v)) (subject_of (JObj kvs))"
    by (rule subject_of_normalize_vc[OF cs pr])
  then have cn: "collections (subject_of (normalize_vc (JObj kvs)))
             = [(u ''positionHistory'', JArr [replace_nulls (fallback_position ?uid)])]"
    by (simp add: collections_map_values c)
  have f: "field (u ''type'') (fallback_position ?uid) = Some (JStr (u ''Position''))"
      "field (u ''jobTitle'') (fallback_position ?uid) = Some JNull"
      "field (u ''organization'') (fallback_position ?uid) = Some JNull"
      "field (u ''description'') (fallback_position ?uid) = Some JNull"
      "field (u ''jobTitle'') (replace_nulls (fallback_position ?uid)) = Some (JStr (u ''Unknown''))"
      "field (u ''organization'') (replace_nulls (fallback_position ?uid)) = Some (JStr (u ''Unknown''))"
      "field (u ''description'') (replace_nulls (fallback_position ?uid)) = Some (JStr (u ''Unknown''))"
    by (simp_all add: fallback_position_def)
  from v c cn f show "\<exists>vc uid. build_vc E name sections a n = Inr vc
         \<and> collections (subject_of vc) = [(u ''positionHistory'', JArr [fallback_position uid])]
         \<and> field (u ''type'') (fallback_position uid) = Some (JStr (u ''Position''))
         \<and> field (u ''jobTitle'') (fallback_position uid) = Some JNull
         \<and> field (u ''organization'') (fallback_position uid) = Some JNull
         \<and> field (u ''description'') (fallback_position uid) = Some JNull
         \<and> collections (subject_of (normalize_vc vc))
             = [(u ''positionHistory'', JArr [replace_nulls (fallback_position uid)])]
         \<and> field (u ''jobTitle'') (replace_nulls (fallback_position uid)) = Some (JStr (u ''Unknown''))
         \<and> field (u ''organization'') (replace_nulls (fallback_position uid)) = Some (JStr (u ''Unknown''))
         \<and> field (u ''description'') (replace_nulls (fallback_position uid)) = Some (JStr (u ''Unknown''))"
    by blast
next
  assume nh: "\<forall>p\<in>set ps. \<not> is_heading_para E p"
  then show e: "snd (parse_docx E ps) = []" by (rule no_heading_no_sections)
  show "\<not> blank_title E (fst (parse_docx E ps)) a" by (rule parse_docx_not_blank)
  show "\<not> populated E (snd (parse_docx E ps))" by (simp add: e populated_iff)
next
  assume h: "\<not> blank_title E name a \<and> populated E sections"
  from build_vc_shape[of E name a sections n] h obtain kvs personal subject1 n2 where
    v: "build_vc E name sections a n = Inr (JObj kvs)"
    and s: "add_sections E sections
              [(u ''id'', JStr (fst (or_uuid E (subject_id a) n))),
               (u ''type'', JStr (u ''ResumeSubject'')),
               (u ''personalData'', JObj personal)] (snd (or_uuid E (subject_id a) n)) = (subject1, n2)"
    and so: "subject_of (JObj kvs) = subject1"
    by auto
  have "length (records (subject_of (JObj kvs)) k) = length (routed E k sections)
        \<and> (\<forall>r\<in>set (records (subject_of (JObj kvs)) k). field (payload_field k) r \<noteq> Some JNull)" for k
  proof -
    have m: "map (field (payload_field k)) (records subject1 k) = map (\<lambda>t. Some (JStr t)) (routed E k sections)"
      by (rule records_payloads(1)[OF s])
    then have "length (records subject1 k) = length (routed E k sections)"
      by (metis length_map)
    moreover have "field (payload_field k) r \<noteq> Some JNull" if "r \<in> set (records subject1 k)" for r
    proof -
      from that have "field (payload_field k) r \<in> set (map (field (payload_field k)) (records subject1 k))"
        by simp
      with m show ?thesis by auto
    qed
    ultimately show ?thesis by (simp add: so)
  qed
  with v show "\<exists>vc. build_vc E name sections a n = Inr vc
           \<and> (\<forall>k. length (records (subject_of vc) k) = length (routed E k sections)
                  \<and> (\<forall>r\<in>set (records (subject_of vc) k). field (payload_field k) r \<noteq> Some JNull))"
    by blast
qed

theorem fallback_position_injected_witness:
  "(\<exists>vc uid. build_vc ascii_runtime None [(u ''Hobbies'', [u ''Chess''])] no_overrides 0 = Inr vc
       \<and> collections (subject_of vc) = [(u ''positionHistory'', JArr [fallback_position uid])]
       \<and> collections (subject_of (normalize_vc vc))
           = [(u ''positionHistory'', JArr [replace_nulls (fallback_position uid)])]
       \<and> field (u ''description'') (replace_nulls (fallback_position uid)) = Some (JStr (u ''Unknown'')))
   \<and> snd (parse_docx ascii_runtime doc_plain) = []
   \<and> fst (parse_docx ascii_runtime doc_plain) = Some (u ''Jane Q Public'')
   \<and> (\<exists>vc. build_vc ascii_runtime None alias_sections no_overrides 0 = Inr vc
          \<and> length (records (subject_of vc) PositionHistory) = 4)"
proof -
  have b: "\<not> blank_title ascii_runtime None no_overrides" by code_simp
  have u: "\<not> populated ascii_runtime [(u ''Hobbies'', [u ''Chess''])]" by code_simp
  have p: "populated ascii_runtime alias_sections" by code_simp
  have d: "\<forall>p\<in>set doc_plain. \<not> is_heading_para ascii_runtime p" by code_simp
  have l: "length (routed ascii_runtime PositionHistory alias_sections) = 4" by code_simp
  have f: "fst (parse_docx ascii_runtime doc_plain) = Some (u ''Jane Q Public'')" by code_simp
  note A = fallback_position_injected[of ascii_runtime None no_overrides "[(u ''Hobbies'', [u ''Chess''])]" 0 doc_plain]
  note B = fallback_position_injected[of ascii_runtime None no_overrides alias_sections 0 doc_plain]
  have 1: "\<exists>vc uid. build_vc ascii_runtime None [(u ''Hobbies'', [u ''Chess''])] no_overrides 0 = Inr vc
       \<and> collections (subject_of vc) = [(u ''positionHistory'', JArr [fallback_position uid])]
       \<and> collections (subject_of (normalize_vc vc))
           = [(u ''positionHistory'', JArr [replace_nulls (fallback_position uid)])]
       \<and> field (u ''description'') (replace_nulls (fallback_position uid)) = Some (JStr (u ''Unknown''))"
    using A[THEN conjunct1, THEN mp, OF conjI[OF b u]]
    by (elim exE conjE) (intro exI conjI; assumption)
  have 2: "snd (parse_docx ascii_runtime doc_plain) = []"
    by (rule A[THEN conjunct2, THEN conjunct1, THEN mp, OF d, THEN conjunct1])
  from B[THEN conjunct2, THEN conjunct2, THEN mp, OF conjI[OF b p]] obtain vc where
    v: "build_vc ascii_runtime None alias_sections no_overrides 0 = Inr vc"
    and r: "\<forall>k. length (records (subject_of vc) k) = length (routed ascii_runtime k alias_sections)
              \<and> (\<forall>r\<in>set (records (subject_of vc) k). field (payload_field k) r \<noteq> Some JNull)"
    by (elim exE conjE)
  from r[THEN spec, of PositionHistory, THEN conjunct1]
  have "length (records (subject_of vc) PositionHistory) = 4" by (simp only: l)
  with v have 3: "\<exists>vc. build_vc ascii_runtime None alias_sections no_overrides 0 = Inr vc
          \<and> length (records (subject_of vc) PositionHistory) = 4"
    by (intro exI conjI)
  show ?thesis by (intro conjI 1 2 f 3)
qed



section \<open>Overrides\<close>

text \<open>
  Claim C8, as the code has it. In the credential that \<open>build_vc\<close> returns, each of the
  seven overrides that is given and not empty is the value in the output: the subject id,
  the issuer id and name, and in the personal data the given name, the family name, the
  e-mail address and the telephone number, whatever the title and the groups are; and an
  override given as the empty string counts as absent: \<open>build_vc\<close> does with it what it
  does without the override. (\<open>build_vc\<close> returns a credential unless the title is a
  non-empty string without a word and the given name is not overridden.)
\<close>

theorem overrides_take_precedence:
  "(\<not> blank_title E name a \<longrightarrow>
      (\<exists>vc. build_vc E name sections a n = Inr vc
         \<and> (\<forall>v. v \<noteq> [] \<and> subject_id a = Some v \<longrightarrow> map_of (subject_of vc) (u ''id'') = Some (JStr v))
         \<and> (\<forall>v. v \<noteq> [] \<and> issuer_id a = Some v \<longrightarrow> issuer_field (u ''id'') vc = Some (JStr v))
         \<and> (\<forall>v. v \<noteq> [] \<and> issuer_name a = Some v \<longrightarrow> issuer_field (u ''name'') vc = Some (JStr v))
         \<and> (\<forall>v. v \<noteq> [] \<and> given_name a = Some v \<longrightarrow> personal_field (u ''givenName'') vc = Some (JStr v))
         \<and> (\<forall>v. v \<noteq> [] \<and> family_name a = Some v \<longrightarrow> personal_field (u ''familyName'') vc = Some (JStr v))
         \<and> (\<forall>v. v \<noteq> [] \<and> email a = Some v \<longrightarrow> personal_field (u ''email'') vc = Some (JStr v))
         \<and> (\<forall>v. v \<noteq> [] \<and> phone a = Some v \<longrightarrow> personal_field (u ''phone'') vc = Some (JStr v))))
   \<and> (blank_title E name a \<longrightarrow>
        build_vc E name sections a n = Inl IndexError \<and> (\<forall>v. given_name a = Some v \<longrightarrow> v = []))
   \<and> (subject_id a = Some [] \<longrightarrow>
        build_vc E name sections a n = build_vc E name sections (a\<lparr>subject_id := None\<rparr>) n)
   \<and> (issuer_id a = Some [] \<longrightarrow>
        build_vc E name sections a n = build_vc E name sections (a\<lparr>issuer_id := None\<rparr>) n)
   \<and> (issuer_name a = Some [] \<longrightarrow>
        build_vc E name sections a n = build_vc E name sections (a\<lparr>issuer_name := None\<rparr>) n)
   \<and> (given_name a = Some [] \<longrightarrow>
        build_vc E name sections a n = build_vc E name sections (a\<lparr>given_name := None\<rparr>) n)
   \<and> (family_name a = Some [] \<longrightarrow>
        build_vc E name sections a n = build_vc E name sections (a\<lparr>family_name := None\<rparr>) n)
   \<and> (email a = Some [] \<longrightarrow>
        build_vc E name sections a n = build_vc E name sections (a\<lparr>email := None\<rparr>) n)
   \<and> (phone a = Some [] \<longrightarrow>
        build_vc E name sections a n = build_vc E name sections (a\<lparr>phone := None\<rparr>) n)"
proof (intro conjI impI)
  assume nb: "\<not> blank_title E name a"
  from build_vc_shape[OF nb, of sections n] obtain kvs personal subject1 n2 n3 where
    v: "build_vc E name sections a n = Inr (JObj kvs)"
    and pd: "personal_data E name a = Inr personal"
    and s: "add_sections E sections
              [(u ''id'', JStr (fst (or_uuid E (subject_id a) n))),
               (u ''type'', JStr (u ''ResumeSubject'')),
               (u ''personalData'', JObj personal)] (snd (or_uuid E (subject_id a) n)) = (subject1, n2)"
    and so: "subject_of (JObj kvs) =
              (if populated E sections then subject1
               else AList.update (u ''positionHistory'')
                      (JArr [fallback_position (fst (new_uuid E n2))]) subject1)"
    and i: "map_of kvs (u ''issuer'')
               = Some (JObj [(u ''type'', JStr (u ''Organization'')),
                             (u ''id'', JStr (fst (or_uuid E (issuer_id a) n3))),
                             (u ''name'', JStr (or_default (issuer_name a) default_issuer_name))])"
    by blast
  from personal_data_Inr[OF nb] pd obtain given where
    g: "derive_given E name a = Inr given"
    and pe: "personal = [(u ''givenName'', opt_json given),
                (u ''familyName'', opt_json (derive_family E name a)),
                (u ''email'', or_None (email a)),
                (u ''phone'', or_None (phone a))]"
    by auto
  have sid: "map_of (subject_of (JObj kvs)) (u ''id'') = Some (JStr (fst (or_uuid E (subject_id a) n)))"
    unfolding so by (rule subject_base_fields(1)[OF s])
  have spd: "map_of (subject_of (JObj kvs)) (u ''personalData'') = Some (JObj personal)"
    unfolding so by (rule subject_base_fields(2)[OF s])
  have 1: "\<forall>v. v \<noteq> [] \<and> subject_id a = Some v \<longrightarrow> map_of (subject_of (JObj kvs)) (u ''id'') = Some (JStr v)"
    using sid by (auto simp add: or_uuid_override)
  have 2: "\<forall>v. v \<noteq> [] \<and> issuer_id a = Some v \<longrightarrow> issuer_field (u ''id'') (JObj kvs) = Some (JStr v)"
    using i by (auto simp add: issuer_field_def or_uuid_override)
  have 3: "\<forall>v. v \<noteq> [] \<and> issuer_name a = Some v \<longrightarrow> issuer_field (u ''name'') (JObj kvs) = Some (JStr v)"
    using i by (auto simp add: issuer_field_def or_default_def)
  have 4: "\<forall>v. v \<noteq> [] \<and> given_name a = Some v \<longrightarrow> personal_field (u ''givenName'') (JObj kvs) = Some (JStr v)"
    using g derive_given_override[of _ a E name]
    by (auto simp add: personal_field_def spd pe opt_json_def)
  have 5: "\<forall>v. v \<noteq> [] \<and> family_name a = Some v \<longrightarrow> personal_field (u ''familyName'') (JObj kvs) = Some (JStr v)"
    using derive_family_override[of _ a E name]
    by (auto simp add: personal_field_def spd pe opt_json_def)
  have 6: "\<forall>v. v \<noteq> [] \<and> email a = Some v \<longrightarrow> personal_field (u ''email'') (JObj kvs) = Some (JStr v)"
    by (auto simp add: personal_field_def spd pe or_None_def)
  have 7: "\<forall>v. v \<noteq> [] \<and> phone a = Some v \<longrightarrow> personal_field (u ''phone'') (JObj kvs) = Some (JStr v)"
    by (auto simp add: personal_field_def spd pe or_None_def)
  show "\<exists>vc. build_vc E name sections a n = Inr vc
         \<and> (\<forall>v. v \<noteq> [] \<and> subject_id a = Some v \<longrightarrow> map_of (subject_of vc) (u ''id'') = Some (JStr v))
         \<and> (\<forall>v. v \<noteq> [] \<and> issuer_id a = Some v \<longrightarrow> issuer_field (u ''id'') vc = Some (JStr v))
         \<and> (\<forall>v. v \<noteq> [] \<and> issuer_name a = Some v \<longrightarrow> issuer_field (u ''name'') vc = Some (JStr v))
         \<and> (\<forall>v. v \<noteq> [] \<and> given_name a = Some v \<longrightarrow> personal_field (u ''givenName'') vc = Some (JStr v))
         \<and> (\<forall>v. v \<noteq> [] \<and> family_name a = Some v \<longrightarrow> personal_field (u ''familyName'') vc = Some (JStr v))
         \<and> (\<forall>v. v \<noteq> [] \<and> email a = Some v \<longrightarrow> personal_field (u ''email'') vc = Some (JStr v))
         \<and> (\<forall>v. v \<noteq> [] \<and> phone a = Some v \<longrightarrow> personal_field (u ''phone'') vc = Some (JStr v))"
    by (rule exI[of _ "JObj kvs"]) (intro conjI v 1 2 3 4 5 6 7)
next
  assume b: "blank_title E name a"
  then show "build_vc E name sections a n = Inl IndexError" by (rule build_vc_Inl)
  from b show "\<forall>v. given_name a = Some v \<longrightarrow> v = []"
    by (auto simp add: blank_title_def truthy_def)
next
  assume "subject_id a = Some []"
  then show "build_vc E name sections a n = build_vc E name sections (a\<lparr>subject_id := None\<rparr>) n"
    by (rule empty_override_absent(1))
next
  assume "issuer_id a = Some []"
  then show "build_vc E name sections a n = build_vc E name sections (a\<lparr>issuer_id := None\<rparr>) n"
    by (rule empty_override_absent(2))
next
  assume "issuer_name a = Some []"
  then show "build_vc E name sections a n = build_vc E name sections (a\<lparr>issuer_name := None\<rparr>) n"
    by (rule empty_override_absent(3))
next
  assume "given_name a = Some []"
  then show "build_vc E name sections a n = build_vc E name sections (a\<lparr>given_name := None\<rparr>) n"
    by (rule empty_override_absent(4))
next
  assume "family_name a = Some []"
  then show "build_vc E name sections a n = build_vc E name sections (a\<lparr>family_name := None\<rparr>) n"
    by (rule empty_override_absent(5))
next
  assume "email a = Some []"
  then show "build_vc E name sections a n = build_vc E name sections (a\<lparr>email := None\<rparr>) n"
    by (rule empty_override_absent(6))
next
  assume "phone a = Some []"
  then show "build_vc E name sections a n = build_vc E name sections (a\<lparr>phone := None\<rparr>) n"
    by (rule empty_override_absent(7))
qed

theorem overrides_take_precedence_witness:
  "(\<exists>vc. build_vc ascii_runtime (Some (u ''Jane Q Public'')) alias_sections all_overrides 0 = Inr vc
       \<and> map_of (subject_of vc) (u ''id'') = Some (JStr (u ''did:example:jane''))
       \<and> issuer_field (u ''id'') vc = Some (JStr (u ''did:example:acme''))
       \<and> issuer_field (u ''name'') vc = Some (JStr (u ''Acme Corp''))
       \<and> personal_field (u ''givenName'') vc = Some (JStr (u ''J.''))
       \<and> personal_field (u ''familyName'') vc = Some (JStr (u ''Doe''))
       \<and> personal_field (u ''email'') vc = Some (JStr (u ''jane@example.org''))
       \<and> personal_field (u ''phone'') vc = Some (JStr (u ''555-0100'')))
   \<and> build_vc ascii_runtime (Some (u ''  '')) alias_sections no_overrides 0 = Inl IndexError
   \<and> build_vc ascii_runtime (Some (u ''Jane Q Public'')) alias_sections empty_overrides 0
       = build_vc ascii_runtime (Some (u ''Jane Q Public'')) alias_sections (empty_overrides\<lparr>subject_id := None\<rparr>) 0
   \<and> build_vc ascii_runtime (Some (u ''Jane Q Public'')) alias_sections empty_overrides 0
       = build_vc ascii_runtime (Some (u ''Jane Q Public'')) alias_sections (empty_overrides\<lparr>issuer_id := None\<rparr>) 0
   \<and> build_vc ascii_runtime (Some (u ''Jane Q Public'')) alias_sections empty_overrides 0
       = build_vc ascii_runtime (Some (u ''Jane Q Public'')) alias_sections (empty_overrides\<lparr>issuer_name := None\<rparr>) 0
   \<and> build_vc ascii_runtime (Some (u ''Jane Q Public'')) alias_sections empty_overrides 0
       = build_vc ascii_runtime (Some (u ''Jane Q Public'')) alias_sections (empty_overrides\<lparr>given_name := None\<rparr>) 0
   \<and> build_vc ascii_runtime (Some (u ''Jane Q Public'')) alias_sections empty_overrides 0
       = build_vc ascii_runtime (Some (u ''Jane Q Public'')) alias_sections (empty_overrides\<lparr>family_name := None\<rparr>) 0
   \<and> build_vc ascii_runtime (Some (u ''Jane Q Public'')) alias_sections empty_overrides 0
       = build_vc ascii_runtime (Some (u ''Jane Q Public'')) alias_sections (empty_overrides\<lparr>email := None\<rparr>) 0
   \<and> build_vc ascii_runtime (Some (u ''Jane Q Public'')) alias_sections empty_overrides 0
       = build_vc ascii_runtime (Some (u ''Jane Q Public'')) alias_sections (empty_overrides\<lparr>phone := None\<rparr>) 0"
proof -
  have nb: "\<not> blank_title ascii_runtime (Some (u ''Jane Q Public'')) all_overrides" by code_simp
  have b: "blank_title ascii_runtime (Some (u ''  '')) no_overrides" by code_simp
  note T = overrides_take_precedence[of ascii_runtime "Some (u ''Jane Q Public'')" all_overrides alias_sections 0]
  note B = overrides_take_precedence[of ascii_runtime "Some (u ''  '')" no_overrides alias_sections 0]
  from T[THEN conjunct1, THEN mp, OF nb] obtain vc where
    v: "build_vc ascii_runtime (Some (u ''Jane Q Public'')) alias_sections all_overrides 0 = Inr vc"
    and 1: "\<forall>v. v \<noteq> [] \<and> subject_id all_overrides = Some v \<longrightarrow> map_of (subject_of vc) (u ''id'') = Some (JStr v)"
    and 2: "\<forall>v. v \<noteq> [] \<and> issuer_id all_overrides = Some v \<longrightarrow> issuer_field (u ''id'') vc = Some (JStr v)"
    and 3: "\<forall>v. v \<noteq> [] \<and> issuer_name all_overrides = Some v \<longrightarrow> issuer_field (u ''name'') vc = Some (JStr v)"
    and 4: "\<forall>v. v \<noteq> [] \<and> given_name all_overrides = Some v \<longrightarrow> personal_field (u ''givenName'') vc = Some (JStr v)"
    and 5: "\<forall>v. v \<noteq> [] \<and> family_name all_overrides = Some v \<longrightarrow> personal_field (u ''familyName'') vc = Some (JStr v)"
    and 6: "\<forall>v. v \<noteq> [] \<and> email all_overrides = Some v \<longrightarrow> personal_field (u ''email'') vc = Some (JStr v)"
    and 7: "\<forall>v. v \<noteq> [] \<and> phone all_overrides = Some v \<longrightarrow> personal_field (u ''phone'') vc = Some (JStr v)"
    by (elim exE conjE)
  have a1: "map_of (subject_of vc) (u ''id'') = Some (JStr (u ''did:example:jane''))"
    by (rule 1[THEN spec, THEN mp]) (simp add: all_overrides_def)
  have a2: "issuer_field (u ''id'') vc = Some (JStr (u ''did:example:acme''))"
    by (rule 2[THEN spec, THEN mp]) (simp add: all_overrides_def)
  have a3: "issuer_field (u ''name'') vc = Some (JStr (u ''Acme Corp''))"
    by (rule 3[THEN spec, THEN mp]) (simp add: all_overrides_def)
  have a4: "personal_field (u ''givenName'') vc = Some (JStr (u ''J.''))"
    by (rule 4[THEN spec, THEN mp]) (simp add: all_overrides_def)
  have a5: "personal_field (u ''familyName'') vc = Some (JStr (u ''Doe''))"
    by (rule 5[THEN spec, THEN mp]) (simp add: all_overrides_def)
  have a6: "personal_field (u ''email'') vc = Some (JStr (u ''jane@example.org''))"
    by (rule 6[THEN spec, THEN mp]) (simp add: all_overrides_def)
  have a7: "personal_field (u ''phone'') vc = Some (JStr (u ''555-0100''))"
    by (rule 7[THEN spec, THEN mp]) (simp add: all_overrides_def)
  have A: "\<exists>vc. build_vc ascii_runtime (Some (u ''Jane Q Public'')) alias_sections all_overrides 0 = Inr vc
       \<and> map_of (subject_of vc) (u ''id'') = Some (JStr (u ''did:example:jane''))
       \<and> issuer_field (u ''id'') vc = Some (JStr (u ''did:example:acme''))
       \<and> issuer_field (u ''name'') vc = Some (JStr (u ''Acme Corp''))
       \<and> personal_field (u ''givenName'') vc = Some (JStr (u ''J.''))
       \<and> personal_field (u ''familyName'') vc = Some (JStr (u ''Doe''))
       \<and> personal_field (u ''email'') vc = Some (JStr (u ''jane@example.org''))
       \<and> personal_field (u ''phone'') vc = Some (JStr (u ''555-0100''))"
    by (rule exI[of _ vc]) (intro conjI v a1 a2 a3 a4 a5 a6 a7)
  note Q = overrides_take_precedence[of ascii_runtime "Some (u ''Jane Q Public'')" empty_overrides
             alias_sections 0, THEN conjunct2, THEN conjunct2]
  have e1: "subject_id empty_overrides = Some []" by (simp add: empty_overrides_def)
  note q1 = Q[THEN conjunct1, THEN mp, OF e1]
  have e2: "issuer_id empty_overrides = Some []" by (simp add: empty_overrides_def)
  note q2 = Q[THEN conjunct2, THEN conjunct1, THEN mp, OF e2]
  have e3: "issuer_name empty_overrides = Some []" by (simp add: empty_overrides_def)
  note q3 = Q[THEN conjunct2, THEN conjunct2, THEN conjunct1, THEN mp, OF e3]
  have e4: "given_name empty_overrides = Some []" by (simp add: empty_overrides_def)
  note q4 = Q[THEN conjunct2, THEN conjunct2, THEN conjunct2, THEN conjunct1, THEN mp, OF e4]
  have e5: "family_name empty_overrides = Some []" by (simp add: empty_overrides_def)
  note q5 = Q[THEN conjunct2, THEN conjunct2, THEN conjunct2, THEN conjunct2, THEN conjunct1, THEN mp, OF e5]
  have e6: "email empty_overrides = Some []" by (simp add: empty_overrides_def)
  note q6 = Q[THEN conjunct2, THEN conjunct2, THEN conjunct2, THEN conjunct2, THEN conjunct2, THEN conjunct1, THEN mp, OF e6]
  have e7: "phone empty_overrides = Some []" by (simp add: empty_overrides_def)
  note q7 = Q[THEN conjunct2, THEN conjunct2, THEN conjunct2, THEN conjunct2, THEN conjunct2, THEN conjunct2, THEN mp, OF e7]
  note I = B[THEN conjunct2, THEN conjunct1, THEN mp, OF b, THEN conjunct1]
  show ?thesis by (intro conjI A I q1 q2 q3 q4 q5 q6 q7)
qed

text \<open>
  Claim C8 as stated fails for an override that is given and empty: with the given name
  overridden by the empty string and the title \<open>Jane Public\<close> the output has the derived
  \<open>Jane\<close>, and an e-mail address overridden by the empty string is written as null.
\<close>

theorem empty_override_counterexample:
  "given_name (no_overrides\<lparr>given_name := Some []\<rparr>) = Some []
   \<and> map_sum id (personal_field (u ''givenName''))
       (build_vc ascii_runtime (Some (u ''Jane Public'')) [] (no_overrides\<lparr>given_name := Some []\<rparr>) 0)
       = Inr (Some (JStr (u ''Jane'')))
   \<and> email (no_overrides\<lparr>email := Some []\<rparr>) = Some []
   \<and> map_sum id (personal_field (u ''email''))
       (build_vc ascii_runtime (Some (u ''Jane Public'')) [] (no_overrides\<lparr>email := Some []\<rparr>) 0)
       = Inr (Some JNull)"
  by code_simp

end
